theory Spec2Isabelle
  imports Main "HOL-Library.Product_Lexorder" "HOL-Library.Multiset"
begin

section \<open>The AST (model/node.go, model/inline.go, model/structural.go)\<close>

text \<open>
  Go strings are byte sequences; they are modelled as \<^typ>\<open>string\<close> (a list of
  \<^typ>\<open>char\<close>, one per byte). \<open>EditType\<close> and the structural \<open>Operation\<close> are plain
  Go strings, so a caller of the transformer may hand in any value; the model keeps them
  as strings and names the constants of the source. The files are named by the path in
  their first comment line: the text of parser/parser.go follows the test document in
  testdata/multiline.md, and model/inline.go and model/structural.go are the file
  unnamed/part_001.
\<close>

type_synonym EditType = string

abbreviation EditTypeAddition :: EditType where "EditTypeAddition \<equiv> ''addition''"
abbreviation EditTypeDeletion :: EditType where "EditTypeDeletion \<equiv> ''deletion''"
abbreviation EditTypeComment :: EditType where "EditTypeComment \<equiv> ''comment''"
abbreviation EditTypeHighlight :: EditType where "EditTypeHighlight \<equiv> ''highlight''"

abbreviation OperationMove :: string where "OperationMove \<equiv> ''move''"
abbreviation OperationCopy :: string where "OperationCopy \<equiv> ''copy''"

text \<open>
  The four node types that implement the \<open>Node\<close> interface. The field order is the
  one of the Go structs: \<open>InlineEditNode{EditType, Content, EditorID}\<close>,
  \<open>StructuralSourceNode{Operation, Tag, BlockContent}\<close>,
  \<open>StructuralTargetNode{Operation, Tag}\<close>.
\<close>

datatype Node =
    TextNode string
  | InlineEditNode EditType string string
  | StructuralSourceNode string string string
  | StructuralTargetNode string string

section \<open>Escape processing (parser/parser.go)\<close>

abbreviation bslash :: char where "bslash \<equiv> CHR 0x5C"

text \<open>
  \<open>strings.ReplaceAll(s, old, new)\<close> for a two-byte \<open>old\<close> (every call of the source
  has one): the non-overlapping occurrences of \<open>old\<close> are replaced from left to right,
  and the scan goes on behind each replaced occurrence. The pattern is given as the
  pair of its two bytes.
\<close>

fun ReplaceAll :: "string \<Rightarrow> char \<times> char \<Rightarrow> string \<Rightarrow> string" where
  "ReplaceAll (x # y # s) (a, b) new =
     (if x = a \<and> y = b then new @ ReplaceAll s (a, b) new
      else x # ReplaceAll (y # s) (a, b) new)"
| "ReplaceAll s old new = s"

text \<open>
  \<open>unescapeInlineContent\<close>: three general replacements, one after the other over the
  whole string, then the one of the edit type's closing operator.
\<close>

definition unescapeInlineContent :: "string \<Rightarrow> EditType \<Rightarrow> string" where
  "unescapeInlineContent content editType =
     (let content = ReplaceAll content (bslash, bslash) [bslash];
          content = ReplaceAll content (bslash, CHR ''{'') ''{'';
          content = ReplaceAll content (bslash, CHR ''}'') ''}''
      in if editType = EditTypeAddition then ReplaceAll content (bslash, CHR ''+'') ''+''
         else if editType = EditTypeDeletion then ReplaceAll content (bslash, CHR ''-'') ''-''
         else if editType = EditTypeComment then ReplaceAll content (bslash, CHR ''<'') ''<''
         else if editType = EditTypeHighlight then ReplaceAll content (bslash, CHR ''='') ''=''
         else content)"

text \<open>
  \<open>unescapeStructuralBlockContent\<close>: the backslash pair, then the escaped tilde;
  nothing else.
\<close>

definition unescapeStructuralBlockContent :: "string \<Rightarrow> string" where
  "unescapeStructuralBlockContent content =
     (let content = ReplaceAll content (bslash, bslash) [bslash];
          content = ReplaceAll content (bslash, CHR ''~'') ''~''
      in content)"

section \<open>The matching stage (parser/parser.go, the eight regular expressions)\<close>

text \<open>
  Go's \<open>regexp\<close> package finds the leftmost match and, among the matches that start
  there, the one a backtracking search finds first. All eight expressions have the same
  shape: a literal opening, a lazy \<open>(?s).*?\<close> content (absent for targets), and a
  closing part made of a literal, an alphanumeric run and \<open>}\<close>. The functions below
  are that search written out for these shapes. Every delimiter is an ASCII byte, which
  never lies inside a multi-byte rune, so \<open>.\<close> is read as "any byte".
\<close>

definition isAlnum :: "char \<Rightarrow> bool" where
  "isAlnum c =
     (let n = (of_char c :: nat)
      in (48 \<le> n \<and> n \<le> 57) \<or> (65 \<le> n \<and> n \<le> 90) \<or> (97 \<le> n \<and> n \<le> 122))"

definition HasPrefix :: "string \<Rightarrow> string \<Rightarrow> bool" where
  "HasPrefix s p = (take (length p) s = p)"

text \<open>
  The closing part of an inline expression, \<open>cl(?:([a-zA-Z0-9]{1,5}))?\}\<close>, tried at
  the head of \<open>s\<close>. The id group is greedy and is followed by \<open>}\<close>, which is not
  alphanumeric: the group can only be the whole alphanumeric run behind \<open>cl\<close>, and the
  run must have at most five bytes. The result is the length of the id (0: the group
  did not take part).
\<close>

definition inlineTail :: "char \<Rightarrow> string \<Rightarrow> nat option" where
  "inlineTail cl s =
     (case s of
        [] \<Rightarrow> None
      | c # r \<Rightarrow>
          if c \<noteq> cl then None
          else let k = length (takeWhile isAlnum r)
               in if k \<le> 5 \<and> HasPrefix (drop k r) ''}'' then Some k else None)"

text \<open>
  The lazy content: the shortest content first, one byte more on each failure of the
  closing part. \<open>n\<close> counts the content bytes taken so far; the result is the content
  length and the id length.
\<close>

fun scanInline :: "char \<Rightarrow> nat \<Rightarrow> string \<Rightarrow> (nat \<times> nat) option" where
  "scanInline cl n [] = None"
| "scanInline cl n (c # r) =
     (case inlineTail cl (c # r) of
        Some k \<Rightarrow> Some (n, k)
      | None \<Rightarrow> scanInline cl (Suc n) r)"

text \<open>An inline expression tried at the head of \<open>s\<close>: \<open>{\<close>, the opening operator, the scan.\<close>

definition matchInlineAt :: "char \<Rightarrow> char \<Rightarrow> string \<Rightarrow> (nat \<times> nat) option" where
  "matchInlineAt opn cl s =
     (case s of
        a # b # r \<Rightarrow> if a = CHR ''{'' \<and> b = opn then scanInline cl 0 r else None
      | _ \<Rightarrow> None)"

text \<open>
  The keyword alternation \<open>(move|mv|m)\<close> resp. \<open>(copy|cp|c)\<close> followed by the
  delimiter \<open>d\<close> (\<open>~\<close> for a source, \<open>:\<close> for a target): the alternatives are tried in
  order; the result is the length of the keyword that is followed by \<open>d\<close>.
\<close>

fun matchKeyword :: "string list \<Rightarrow> char \<Rightarrow> string \<Rightarrow> nat option" where
  "matchKeyword [] d s = None"
| "matchKeyword (kw # kws) d s =
     (if HasPrefix s (kw @ [d]) then Some (length kw) else matchKeyword kws d s)"

abbreviation moveKeywords :: "string list" where "moveKeywords \<equiv> [''move'', ''mv'', ''m'']"
abbreviation copyKeywords :: "string list" where "copyKeywords \<equiv> [''copy'', ''cp'', ''c'']"

text \<open>
  The tag and the closing brace, \<open>([a-zA-Z0-9]+)\}\<close>, at the head of \<open>s\<close>: the greedy
  run is the whole alphanumeric run, it is not empty and \<open>}\<close> follows. The result is the
  tag length.
\<close>

definition tagTail :: "string \<Rightarrow> nat option" where
  "tagTail s =
     (let k = length (takeWhile isAlnum s)
      in if 0 < k \<and> HasPrefix (drop k s) ''}'' then Some k else None)"

text \<open>The lazy block content of a source, closed by \<open>~\<close>, the tag and \<open>}\<close>.\<close>

fun scanSource :: "nat \<Rightarrow> string \<Rightarrow> (nat \<times> nat) option" where
  "scanSource n [] = None"
| "scanSource n (c # r) =
     (case (if c = CHR ''~'' then tagTail r else None) of
        Some k \<Rightarrow> Some (n, k)
      | None \<Rightarrow> scanSource (Suc n) r)"

text \<open>
  A source expression at the head of \<open>s\<close>; the result is the keyword length, the
  content length and the tag length.
\<close>

definition matchSourceAt :: "string list \<Rightarrow> string \<Rightarrow> (nat \<times> nat \<times> nat) option" where
  "matchSourceAt kws s =
     (case s of
        [] \<Rightarrow> None
      | a # r \<Rightarrow>
          if a \<noteq> CHR ''{'' then None
          else (case matchKeyword kws (CHR ''~'') r of
                  None \<Rightarrow> None
                | Some w \<Rightarrow>
                    (case scanSource 0 (drop (Suc w) r) of
                       None \<Rightarrow> None
                     | Some (n, k) \<Rightarrow> Some (w, n, k))))"

text \<open>A target expression at the head of \<open>s\<close>; the result is the keyword and the tag length.\<close>

definition matchTargetAt :: "string list \<Rightarrow> string \<Rightarrow> (nat \<times> nat) option" where
  "matchTargetAt kws s =
     (case s of
        [] \<Rightarrow> None
      | a # r \<Rightarrow>
          if a \<noteq> CHR ''{'' then None
          else (case matchKeyword kws (CHR '':'') r of
                  None \<Rightarrow> None
                | Some w \<Rightarrow>
                    (case tagTail (drop (Suc w) r) of
                       None \<Rightarrow> None
                     | Some k \<Rightarrow> Some (w, k))))"

text \<open>
  The total length of a match, from the lengths of its groups:
  \<open>{\<close> operator content operator id \<open>}\<close>; \<open>{\<close> keyword \<open>~\<close> content \<open>~\<close> tag \<open>}\<close>;
  \<open>{\<close> keyword \<open>:\<close> tag \<open>}\<close>.
\<close>

definition inlineLen :: "nat \<times> nat \<Rightarrow> nat" where
  "inlineLen g = (case g of (n, k) \<Rightarrow> 2 + n + 1 + k + 1)"

definition sourceLen :: "nat \<times> nat \<times> nat \<Rightarrow> nat" where
  "sourceLen g = (case g of (w, n, k) \<Rightarrow> 1 + w + 1 + n + 1 + k + 1)"

definition targetLen :: "nat \<times> nat \<Rightarrow> nat" where
  "targetLen g = (case g of (w, k) \<Rightarrow> 1 + w + 1 + k + 1)"

text \<open>
  \<open>FindAllStringSubmatchIndex(input, -1)\<close>: successive non-overlapping matches. At each
  position outside the last match the expression is tried; a match at \<open>pos\<close> is
  recorded with its groups and the search goes on behind it (\<open>skip\<close> counts the bytes
  of the last match still to pass). No expression of the source matches the empty
  string.
\<close>

fun FindAll :: "(string \<Rightarrow> 'g option) \<Rightarrow> ('g \<Rightarrow> nat) \<Rightarrow> nat \<Rightarrow> nat \<Rightarrow> string \<Rightarrow> (nat \<times> 'g) list" where
  "FindAll matchAt len skip pos [] = []"
| "FindAll matchAt len skip pos (c # r) =
     (if 0 < skip then FindAll matchAt len (skip - 1) (Suc pos) r
      else (case matchAt (c # r) of
              None \<Rightarrow> FindAll matchAt len 0 (Suc pos) r
            | Some g \<Rightarrow> (pos, g) # FindAll matchAt len (len g - 1) (Suc pos) r))"

section \<open>Building the node sequence (parser/parser.go, ParseEditMLToNodes)\<close>

datatype error = DuplicateSourceTag string | MultipleMoveTargets string

record genericMatch =
  startIndex :: nat
  endIndex :: nat
  node :: Node

text \<open>
  The Go slice expression \<open>input[a:b]\<close>. The parser only slices at indices the regular
  expressions returned, which lie in range and in order.
\<close>

definition slice :: "string \<Rightarrow> nat \<Rightarrow> nat \<Rightarrow> string" where
  "slice s a b = take (b - a) (drop a s)"

text \<open>
  Steps 1 to 4: an inline expression's matches. For a match at \<open>p\<close> with content
  length \<open>n\<close> and id length \<open>k\<close>, the index array \<open>m\<close> of the source is
  \<open>m[0] = p\<close>, \<open>m[1] = p + 2 + n + 1 + k + 1\<close>, \<open>m[2] = p + 2\<close>, \<open>m[3] = p + 2 + n\<close>, and
  \<open>m[4] = p + 2 + n + 1\<close>, \<open>m[5] = m[4] + k\<close> when the id group took part (\<open>-1\<close>
  otherwise).
\<close>

definition inlineMatches :: "char \<Rightarrow> char \<Rightarrow> EditType \<Rightarrow> string \<Rightarrow> genericMatch list" where
  "inlineMatches opn cl editType input =
     map (\<lambda>(p, n, k).
            let content = slice input (p + 2) (p + 2 + n);
                editorID = (if k \<noteq> 0 then slice input (p + 2 + n + 1) (p + 2 + n + 1 + k) else [])
            in \<lparr>startIndex = p, endIndex = p + inlineLen (n, k),
                node = InlineEditNode editType (unescapeInlineContent content editType) editorID\<rparr>)
         (FindAll (matchInlineAt opn cl) inlineLen 0 0 input)"

text \<open>
  Steps 5 and 7: a source expression's matches. For a match at \<open>p\<close> with keyword length
  \<open>w\<close>, content length \<open>n\<close> and tag length \<open>k\<close>: \<open>m[4] = p + 1 + w + 1\<close>,
  \<open>m[5] = m[4] + n\<close>, \<open>m[6] = m[5] + 1\<close>, \<open>m[7] = m[6] + k\<close>. The operation stored is
  the normalised one, not the keyword.
\<close>

definition sourceMatches :: "string list \<Rightarrow> string \<Rightarrow> string \<Rightarrow> genericMatch list" where
  "sourceMatches kws operation input =
     map (\<lambda>(p, w, n, k).
            let rawBlockContent = slice input (p + 1 + w + 1) (p + 1 + w + 1 + n)
            in \<lparr>startIndex = p, endIndex = p + sourceLen (w, n, k),
                node = StructuralSourceNode operation
                         (slice input (p + 1 + w + 1 + n + 1) (p + 1 + w + 1 + n + 1 + k))
                         (unescapeStructuralBlockContent rawBlockContent)\<rparr>)
         (FindAll (matchSourceAt kws) sourceLen 0 0 input)"

text \<open>
  Steps 6 and 8: a target expression's matches; \<open>m[4] = p + 1 + w + 1\<close>,
  \<open>m[5] = m[4] + k\<close>.
\<close>

definition targetMatches :: "string list \<Rightarrow> string \<Rightarrow> string \<Rightarrow> genericMatch list" where
  "targetMatches kws operation input =
     map (\<lambda>(p, w, k).
            \<lparr>startIndex = p, endIndex = p + targetLen (w, k),
             node = StructuralTargetNode operation
                      (slice input (p + 1 + w + 1) (p + 1 + w + 1 + k))\<rparr>)
         (FindAll (matchTargetAt kws) targetLen 0 0 input)"

text \<open>\<open>allMatches\<close> after step 8, in the order the source appends.\<close>

definition allMatches :: "string \<Rightarrow> genericMatch list" where
  "allMatches input =
     inlineMatches (CHR ''+'') (CHR ''+'') EditTypeAddition input @
     inlineMatches (CHR ''-'') (CHR ''-'') EditTypeDeletion input @
     inlineMatches (CHR ''>'') (CHR ''<'') EditTypeComment input @
     inlineMatches (CHR ''='') (CHR ''='') EditTypeHighlight input @
     sourceMatches moveKeywords OperationMove input @
     targetMatches moveKeywords OperationMove input @
     sourceMatches copyKeywords OperationCopy input @
     targetMatches copyKeywords OperationCopy input"

text \<open>Step 9: the \<open>less\<close> function handed to \<open>sort.Slice\<close>.\<close>

definition matchLess :: "genericMatch \<Rightarrow> genericMatch \<Rightarrow> bool" where
  "matchLess mi mj =
     (if startIndex mi = startIndex mj then endIndex mi > endIndex mj
      else startIndex mi < startIndex mj)"

text \<open>
  \<open>sort.Slice\<close> sorts by \<open>less\<close> and promises no order among elements that compare
  equal. It is modelled by insertion: an element goes in front of the first one that is
  not less than it. Two candidates of the matching stage never start at the same index
  (the eight openings exclude one another), so \<open>less\<close> orders them totally.
\<close>

fun insertBy :: "('a \<Rightarrow> 'a \<Rightarrow> bool) \<Rightarrow> 'a \<Rightarrow> 'a list \<Rightarrow> 'a list" where
  "insertBy lt x [] = [x]"
| "insertBy lt x (y # ys) = (if lt y x then y # insertBy lt x ys else x # y # ys)"

definition sortSlice :: "('a \<Rightarrow> 'a \<Rightarrow> bool) \<Rightarrow> 'a list \<Rightarrow> 'a list" where
  "sortSlice lt xs = foldr (insertBy lt) xs []"

text \<open>Step 10: the loop over the sorted matches; its state is \<open>(nodes, lastIndex)\<close>.\<close>

fun interleave :: "string \<Rightarrow> genericMatch list \<Rightarrow> Node list \<times> nat \<Rightarrow> Node list \<times> nat" where
  "interleave input [] (nodes, lastIndex) = (nodes, lastIndex)"
| "interleave input (m # ms) (nodes, lastIndex) =
     (if startIndex m < lastIndex then interleave input ms (nodes, lastIndex)
      else let nodes = (if startIndex m > lastIndex
                        then nodes @ [TextNode (slice input lastIndex (startIndex m))]
                        else nodes)
           in interleave input ms (nodes @ [node m], endIndex m))"

text \<open>
  Steps 9 and 10 and the text behind the last match, as a function of the candidates.
\<close>

definition buildNodes :: "string \<Rightarrow> genericMatch list \<Rightarrow> Node list" where
  "buildNodes input matches =
     (case interleave input (sortSlice matchLess matches) ([], 0) of
        (nodes, lastIndex) \<Rightarrow>
          if lastIndex < length input then nodes @ [TextNode (drop lastIndex input)]
          else nodes)"

text \<open>
  \<open>ParseEditMLToNodes\<close>. The list \<open>issues\<close> of the source is declared and never
  appended to, so the error returned is always \<open>nil\<close>; the branch is kept.
\<close>

definition ParseEditMLToNodes :: "string \<Rightarrow> Node list \<times> error option" where
  "ParseEditMLToNodes input =
     (let issues = ([] :: error list);
          nodes = buildNodes input (allMatches input)
      in if input = [] \<and> nodes = [] then ([], None)
         else if 0 < length issues then (nodes, Some (hd issues))
         else (nodes, None))"

section \<open>The Clean View transformer (transformer/transformer.go)\<close>

text \<open>\<open>strings.Contains\<close>.\<close>

fun Contains :: "string \<Rightarrow> string \<Rightarrow> bool" where
  "Contains [] substr = (substr = [])"
| "Contains (c # s) substr = (HasPrefix (c # s) substr \<or> Contains s substr)"

text \<open>The field \<open>Operation\<close> of the two structural node types.\<close>

fun Operation :: "Node \<Rightarrow> string" where
  "Operation (StructuralSourceNode operation tag blockContent) = operation"
| "Operation (StructuralTargetNode operation tag) = operation"
| "Operation n = []"

text \<open>
  \<open>sourceDetail\<close> (its field \<open>node\<close> is \<open>srcNode\<close> here) and the three maps of the
  pre-scan. A Go map read at a missing key gives the zero value: \<open>allTargets\<close> keeps
  the distinction (the source tests \<open>hasTargets\<close>), \<open>moveTargetCounts\<close> is only read
  through its value and is a total function that starts at 0.
\<close>

record sourceDetail =
  srcNode :: Node
  transformedBlock :: string
  isUsedAsMove :: bool

record indices =
  allSources :: "string \<rightharpoonup> sourceDetail"
  allTargets :: "string \<rightharpoonup> Node list"
  moveTargetCounts :: "string \<Rightarrow> int"

definition emptyIndices :: indices where
  "emptyIndices = \<lparr>allSources = Map.empty, allTargets = Map.empty, moveTargetCounts = (\<lambda>tag. 0)\<rparr>"

definition targetsAt :: "indices \<Rightarrow> string \<Rightarrow> Node list" where
  "targetsAt ix tag = (case allTargets ix tag of None \<Rightarrow> [] | Some ts \<Rightarrow> ts)"

text \<open>
  The pre-transformation of a source's block content (lines 54 to 76): the content is
  parsed again and the transformer is called on the result. \<open>recur\<close> is that recursive
  call; it gives \<open>None\<close> when it does not return.
\<close>

definition preTransform ::
  "(Node list \<Rightarrow> (string \<times> error option) option) \<Rightarrow> string \<Rightarrow> string \<Rightarrow> string \<Rightarrow> string option" where
  "preTransform recur operation tag blockContent =
     (case ParseEditMLToNodes blockContent of
        (subParserNodes, parseErr) \<Rightarrow>
          if parseErr \<noteq> None
          then Some (''{'' @ operation @ ''~'' @ blockContent @ '' (ERROR_PARSING_CONTENT)~'' @ tag @ ''}'')
          else (case recur subParserNodes of
                  None \<Rightarrow> None
                | Some (blockStr, transformErr) \<Rightarrow>
                    if transformErr \<noteq> None
                    then Some (''{'' @ operation @ ''~'' @ blockContent @
                               '' (ERROR_TRANSFORMING_CONTENT)~'' @ tag @ ''}'')
                    else Some blockStr))"

text \<open>
  The first loop (lines 40 to 89). \<open>Inl\<close> is the early return with an error; \<open>None\<close>
  is a recursive call that does not return.
\<close>

fun firstPass ::
  "(Node list \<Rightarrow> (string \<times> error option) option) \<Rightarrow> Node list \<Rightarrow> indices \<Rightarrow> (error + indices) option" where
  "firstPass recur [] ix = Some (Inr ix)"
| "firstPass recur (StructuralSourceNode operation tag blockContent # nodes) ix =
     (if allSources ix tag \<noteq> None then Some (Inl (DuplicateSourceTag tag))
      else (case preTransform recur operation tag blockContent of
              None \<Rightarrow> None
            | Some tb \<Rightarrow>
                firstPass recur nodes
                  (ix\<lparr>allSources := (allSources ix)(tag \<mapsto>
                        \<lparr>srcNode = StructuralSourceNode operation tag blockContent,
                         transformedBlock = tb, isUsedAsMove = False\<rparr>)\<rparr>)))"
| "firstPass recur (StructuralTargetNode operation tag # nodes) ix =
     (let ix = ix\<lparr>allTargets := (allTargets ix)(tag \<mapsto>
                  targetsAt ix tag @ [StructuralTargetNode operation tag])\<rparr>
      in if operation = OperationMove
         then (let ix = ix\<lparr>moveTargetCounts :=
                            (moveTargetCounts ix)(tag := moveTargetCounts ix tag + 1)\<rparr>
               in if 1 < moveTargetCounts ix tag then Some (Inl (MultipleMoveTargets tag))
                  else firstPass recur nodes ix)
         else firstPass recur nodes ix)"
| "firstPass recur (n # nodes) ix = firstPass recur nodes ix"

text \<open>
  The loop that marks the used move sources (lines 93 to 110). It visits every entry
  of \<open>allSources\<close> once and changes only that entry, so the order of the visit does
  not matter.
\<close>

definition markUsed :: "indices \<Rightarrow> string \<Rightarrow> sourceDetail \<Rightarrow> sourceDetail" where
  "markUsed ix tag srcDetail =
     (if Operation (srcNode srcDetail) = OperationMove
      then (case allTargets ix tag of
              None \<Rightarrow> srcDetail
            | Some targets \<Rightarrow>
                if 0 < length targets
                then (let isMoveTargetForThisSource =
                            list_ex (\<lambda>t. Operation t = OperationMove) targets
                      in if isMoveTargetForThisSource \<and> moveTargetCounts ix tag = 1
                         then srcDetail\<lparr>isUsedAsMove := True\<rparr>
                         else srcDetail)
                else srcDetail)
      else srcDetail)"

definition markMoves :: "indices \<Rightarrow> indices" where
  "markMoves ix =
     ix\<lparr>allSources := (\<lambda>tag. map_option (markUsed ix tag) (allSources ix tag))\<rparr>"

text \<open>The body of the second loop (lines 116 to 222): what one node writes.\<close>

definition literalSource :: "string \<Rightarrow> string \<Rightarrow> string \<Rightarrow> string" where
  "literalSource operation blockContent tag =
     ''{'' @ operation @ ''~'' @ blockContent @ ''~'' @ tag @ ''}''"

definition literalTarget :: "string \<Rightarrow> string \<Rightarrow> string" where
  "literalTarget operation tag = ''{'' @ operation @ '':'' @ tag @ ''}''"

definition renderNode :: "indices \<Rightarrow> Node \<Rightarrow> string" where
  "renderNode ix n =
     (case n of
        TextNode t \<Rightarrow> t
      | InlineEditNode editType content editorID \<Rightarrow>
          if editType = EditTypeAddition then content
          else if editType = EditTypeDeletion then []
          else if editType = EditTypeComment then []
          else if editType = EditTypeHighlight then content
          else []
      | StructuralSourceNode operation tag blockContent \<Rightarrow>
          (case allSources ix tag of
             None \<Rightarrow>
               ''{'' @ operation @ ''~'' @ blockContent @ ''~'' @ tag @
               '' (ERROR_SOURCE_NOT_FOUND_IN_MAP)}''
           | Some srcDetail \<Rightarrow>
               if operation = OperationMove
               then (if \<not> isUsedAsMove srcDetail
                     then (if Contains (transformedBlock srcDetail) ''(ERROR_''
                           then transformedBlock srcDetail
                           else literalSource operation blockContent tag)
                     else [])
               else if operation = OperationCopy
               then (let isValidCopyOperation =
                           (case allTargets ix tag of
                              None \<Rightarrow> False
                            | Some targetsForThisCopy \<Rightarrow>
                                list_ex (\<lambda>t. Operation t = OperationCopy) targetsForThisCopy)
                     in if \<not> isValidCopyOperation \<or> Contains (transformedBlock srcDetail) ''(ERROR_''
                        then (if Contains (transformedBlock srcDetail) ''(ERROR_''
                              then transformedBlock srcDetail
                              else literalSource operation blockContent tag)
                        else transformedBlock srcDetail)
               else [])
      | StructuralTargetNode operation tag \<Rightarrow>
          (case allSources ix tag of
             None \<Rightarrow> literalTarget operation tag
           | Some srcDetail \<Rightarrow>
               if operation \<noteq> Operation (srcNode srcDetail)
               then ''{'' @ operation @ '':'' @ tag @ '' (ERROR_OPERATION_MISMATCH_WITH_SOURCE '' @
                    Operation (srcNode srcDetail) @ '')}''
               else if Contains (transformedBlock srcDetail) ''(ERROR_''
               then transformedBlock srcDetail
               else if operation = OperationMove
               then (if isUsedAsMove srcDetail then transformedBlock srcDetail
                     else literalTarget operation tag)
               else if operation = OperationCopy then transformedBlock srcDetail
               else []))"

text \<open>The second loop; \<open>sb\<close> is the string builder.\<close>

fun renderLoop :: "indices \<Rightarrow> Node list \<Rightarrow> string \<Rightarrow> string" where
  "renderLoop ix [] sb = sb"
| "renderLoop ix (n # nodes) sb = renderLoop ix nodes (sb @ renderNode ix n)"

text \<open>
  \<open>TransformToCleanView\<close>. It calls itself on the parsed block content of every
  source, so the model carries fuel: the number of nested calls allowed. \<open>None\<close> means
  that the fuel ran out, a run that has not returned. The Go function returns the pair
  of the text and the error.
\<close>

primrec TransformToCleanView :: "nat \<Rightarrow> Node list \<Rightarrow> (string \<times> error option) option" where
  "TransformToCleanView 0 nodes = None"
| "TransformToCleanView (Suc fuel) nodes =
     (case firstPass (TransformToCleanView fuel) nodes emptyIndices of
        None \<Rightarrow> None
      | Some (Inl err) \<Rightarrow> Some ([], Some err)
      | Some (Inr ix) \<Rightarrow> Some (renderLoop (markMoves ix) nodes [], None))"

section \<open>The public API (api.go)\<close>

type_synonym IssueSeverity = string

abbreviation SeverityError :: IssueSeverity where "SeverityError \<equiv> ''error''"
abbreviation SeverityWarning :: IssueSeverity where "SeverityWarning \<equiv> ''warning''"

record Issue =
  Message :: string
  Line :: int
  Column :: int
  Severity :: IssueSeverity

text \<open>
  \<open>strconv.Quote\<close>, which the verb \<open>%q\<close> applies to a string: the string between
  double quotes, with the double quote and the backslash escaped by a backslash, the
  control bytes written as \<open>\a\<close>, \<open>\b\<close>, \<open>\f\<close>, \<open>\n\<close>, \<open>\r\<close>, \<open>\t\<close>, \<open>\v\<close> or
  \<open>\x\<close> and two lower-case hexadecimal digits, and the printable ASCII bytes as they
  are. A byte from 0x80 on is written as \<open>\x\<close> and its two digits, which is what Go
  does with a byte outside a valid UTF-8 sequence; Go keeps the bytes of a printable
  multi-byte rune, which takes the Unicode tables and is not modelled. The tags of the
  parser are alphanumeric.
\<close>

definition hexDigit :: "nat \<Rightarrow> char" where
  "hexDigit n = ''0123456789abcdef'' ! n"

definition quoteByte :: "char \<Rightarrow> string" where
  "quoteByte c =
     (let n = (of_char c :: nat)
      in if c = CHR 0x22 \<or> c = bslash then [bslash, c]
         else if 32 \<le> n \<and> n < 127 then [c]
         else if n = 7 then [bslash, CHR ''a'']
         else if n = 8 then [bslash, CHR ''b'']
         else if n = 12 then [bslash, CHR ''f'']
         else if n = 10 then [bslash, CHR ''n'']
         else if n = 13 then [bslash, CHR ''r'']
         else if n = 9 then [bslash, CHR ''t'']
         else if n = 11 then [bslash, CHR ''v'']
         else [bslash, CHR ''x'', hexDigit (n div 16), hexDigit (n mod 16)])"

definition Quote :: "string \<Rightarrow> string" where
  "Quote s = [CHR 0x22] @ concat (map quoteByte s) @ [CHR 0x22]"

text \<open>\<open>err.Error()\<close> of the two errors the transformer makes (\<open>fmt.Errorf\<close> with \<open>%q\<close>).\<close>

fun Error :: "error \<Rightarrow> string" where
  "Error (DuplicateSourceTag tag) = ''structural conflict: duplicate source tag '' @ Quote tag"
| "Error (MultipleMoveTargets tag) =
     ''structural conflict: multiple move targets for tag '' @ Quote tag"

definition TransformCleanView :: "nat \<Rightarrow> Node list \<Rightarrow> (string \<times> Issue list) option" where
  "TransformCleanView fuel nodes =
     (case TransformToCleanView fuel nodes of
        None \<Rightarrow> None
      | Some (transformedText, err) \<Rightarrow>
          (case err of
             Some e \<Rightarrow>
               Some (transformedText,
                     [\<lparr>Message = ''Transformation error: '' @ Error e, Line = 0, Column = 0,
                       Severity = SeverityError\<rparr>])
           | None \<Rightarrow> Some (transformedText, [])))"

section \<open>Definitions used to state the properties\<close>


text \<open>
  The overlap resolver as the specification words it (section 4.3), to be compared with
  the code: the candidates sorted by start offset ascending, ties broken by the larger end
  offset; a walk with a cursor that starts at 0, drops a candidate that starts before the
  cursor, and otherwise emits the Text node of a non-empty gap, the candidate's node, and
  moves the cursor to the candidate's end; one trailing Text node for a remainder.
\<close>

definition specKey :: "genericMatch \<Rightarrow> nat \<times> int" where
  "specKey m = (startIndex m, - int (endIndex m))"

definition specSort :: "genericMatch list \<Rightarrow> genericMatch list" where
  "specSort cs = sort_key specKey cs"

fun specWalk :: "string \<Rightarrow> nat \<Rightarrow> genericMatch list \<Rightarrow> Node list" where
  "specWalk input cursor [] =
     (if cursor < length input then [TextNode (drop cursor input)] else [])"
| "specWalk input cursor (c # cs) =
     (if startIndex c < cursor then specWalk input cursor cs
      else (if cursor < startIndex c then [TextNode (slice input cursor (startIndex c))] else [])
           @ [node c] @ specWalk input (endIndex c) cs)"

definition specMerge :: "string \<Rightarrow> genericMatch list \<Rightarrow> Node list" where
  "specMerge input cs = specWalk input 0 (specSort cs)"

text \<open>
  A candidate lies in range when its indices are in order and inside the input.
\<close>

definition inRange :: "string \<Rightarrow> genericMatch \<Rightarrow> bool" where
  "inRange input m = (startIndex m \<le> endIndex m \<and> endIndex m \<le> length input)"

text \<open>
  The nodes of the parser do not store where they came from. \<open>interleavePieces\<close> is
  the loop of step 10 again, keeping for every node it emits the index range the loop
  took it from (the gap for a Text node, the match for a markup node);
  \<open>parsePieces\<close> adds the trailing text as \<open>ParseEditMLToNodes\<close> does. The original
  literal form of a piece is its range of the input.
\<close>

fun interleavePieces ::
  "string \<Rightarrow> genericMatch list \<Rightarrow> genericMatch list \<times> nat \<Rightarrow> genericMatch list \<times> nat" where
  "interleavePieces input [] (ps, lastIndex) = (ps, lastIndex)"
| "interleavePieces input (m # ms) (ps, lastIndex) =
     (if startIndex m < lastIndex then interleavePieces input ms (ps, lastIndex)
      else let ps = (if startIndex m > lastIndex
                     then ps @ [\<lparr>startIndex = lastIndex, endIndex = startIndex m,
                                 node = TextNode (slice input lastIndex (startIndex m))\<rparr>]
                     else ps)
           in interleavePieces input ms (ps @ [m], endIndex m))"

definition parsePieces :: "string \<Rightarrow> genericMatch list" where
  "parsePieces input =
     (case interleavePieces input (sortSlice matchLess (allMatches input)) ([], 0) of
        (ps, lastIndex) \<Rightarrow>
          if lastIndex < length input
          then ps @ [\<lparr>startIndex = lastIndex, endIndex = length input,
                      node = TextNode (drop lastIndex input)\<rparr>]
          else ps)"

definition originalSpan :: "string \<Rightarrow> genericMatch \<Rightarrow> string" where
  "originalSpan input p = slice input (startIndex p) (endIndex p)"

text \<open>
  A piece is original when it is a Text node that holds exactly its range of the input,
  or a candidate of the matching stage (a markup node with the range of its match).
\<close>

definition originalPiece :: "string \<Rightarrow> genericMatch \<Rightarrow> bool" where
  "originalPiece input p =
     (node p = TextNode (slice input (startIndex p) (endIndex p)) \<or>
      p \<in> set (allMatches input))"

text \<open>Pieces that follow one another without gap or overlap from index \<open>a\<close> to \<open>b\<close>.\<close>

fun contiguous :: "nat \<Rightarrow> genericMatch list \<Rightarrow> nat \<Rightarrow> bool" where
  "contiguous a [] b = (a = b)"
| "contiguous a (p # ps) b =
     (startIndex p = a \<and> startIndex p \<le> endIndex p \<and> contiguous (endIndex p) ps b)"

text \<open>
  The fuel a node sequence needs: one call for the sequence itself and, for a source,
  the calls for its block content, which are bounded by the length of the content.
\<close>

fun fuelNeed :: "Node \<Rightarrow> nat" where
  "fuelNeed (StructuralSourceNode operation tag blockContent) = length blockContent + 2"
| "fuelNeed n = 1"

definition enoughFuel :: "nat \<Rightarrow> Node list \<Rightarrow> bool" where
  "enoughFuel fuel nodes = (0 < fuel \<and> list_all (\<lambda>n. fuelNeed n \<le> fuel) nodes)"

text \<open>
  The tags of the source nodes, and the tags of the target nodes whose operation is
  \<open>move\<close>, in document order (one entry per node).
\<close>

fun sourceTags :: "Node list \<Rightarrow> string list" where
  "sourceTags [] = []"
| "sourceTags (StructuralSourceNode operation tag blockContent # nodes) = tag # sourceTags nodes"
| "sourceTags (n # nodes) = sourceTags nodes"

fun moveTargetTags :: "Node list \<Rightarrow> string list" where
  "moveTargetTags [] = []"
| "moveTargetTags (StructuralTargetNode operation tag # nodes) =
     (if operation = OperationMove then tag # moveTargetTags nodes else moveTargetTags nodes)"
| "moveTargetTags (n # nodes) = moveTargetTags nodes"

text \<open>The target nodes of a tag, in document order.\<close>

fun targetsOf :: "string \<Rightarrow> Node list \<Rightarrow> Node list" where
  "targetsOf tag [] = []"
| "targetsOf tag (StructuralTargetNode operation t # nodes) =
     (if t = tag then StructuralTargetNode operation t # targetsOf tag nodes
      else targetsOf tag nodes)"
| "targetsOf tag (n # nodes) = targetsOf tag nodes"

text \<open>
  The opening of a candidate, read off the text at its start: 1 to 4 for the inline
  operators \<open>+\<close>, \<open>-\<close>, \<open>>\<close>, \<open>=\<close>, 5 and 6 for a move keyword followed by \<open>~\<close>
  resp. \<open>:\<close>, 7 and 8 for a copy keyword, 0 for anything else.
\<close>

definition keywordAt :: "string list \<Rightarrow> char \<Rightarrow> string \<Rightarrow> bool" where
  "keywordAt kws d s = list_ex (\<lambda>kw. HasPrefix s (kw @ [d])) kws"

definition openingAt :: "string \<Rightarrow> nat" where
  "openingAt t =
     (case t of
        [] \<Rightarrow> 0
      | a # r \<Rightarrow>
          if a \<noteq> CHR ''{'' then 0
          else if HasPrefix r ''+'' then 1
          else if HasPrefix r ''-'' then 2
          else if HasPrefix r ''>'' then 3
          else if HasPrefix r ''='' then 4
          else if keywordAt moveKeywords (CHR ''~'') r then 5
          else if keywordAt moveKeywords (CHR '':'') r then 6
          else if keywordAt copyKeywords (CHR ''~'') r then 7
          else if keywordAt copyKeywords (CHR '':'') r then 8
          else 0)"

text \<open>
  The escape decoding as the specification words it (section 4.1), to be compared with
  the code: one pass from left to right, in which a backslash followed by a backslash, a
  brace or the character \<open>x\<close> of the markup kind gives that character, and each pair is
  consumed once.
\<close>

fun specDecode :: "char \<Rightarrow> string \<Rightarrow> string" where
  "specDecode x (a # b # s) =
     (if a = bslash \<and> (b = bslash \<or> b = CHR ''{'' \<or> b = CHR ''}'' \<or> b = x)
      then b # specDecode x s
      else a # specDecode x (b # s))"
| "specDecode x s = s"

text \<open>
  A decoding of block content in one pass from left to right: a backslash followed by
  a backslash or a tilde gives that character, every other byte is kept (a backslash in
  front of a brace too). \<open>slipFree\<close> holds of a content in which this pass meets no
  backslash pair with a tilde right behind it.
\<close>

fun specDecodeBlock :: "string \<Rightarrow> string" where
  "specDecodeBlock (a # b # s) =
     (if a = bslash \<and> (b = bslash \<or> b = CHR ''~'')
      then b # specDecodeBlock s
      else a # specDecodeBlock (b # s))"
| "specDecodeBlock s = s"

fun slipFree :: "string \<Rightarrow> bool" where
  "slipFree (a # b # s) =
     (if a = bslash \<and> b = bslash then \<not> HasPrefix s ''~'' \<and> slipFree s
      else if a = bslash \<and> b = CHR ''~'' then slipFree s
      else slipFree (b # s))"
| "slipFree s = True"

text \<open>
  A block content holds a fatal conflict of its own when its parse has two sources with
  one tag or two move targets with one tag.
\<close>

definition blockConflict :: "string \<Rightarrow> bool" where
  "blockConflict blockContent =
     (\<not> distinct (sourceTags (fst (ParseEditMLToNodes blockContent))) \<or>
      \<not> distinct (moveTargetTags (fst (ParseEditMLToNodes blockContent))))"

section \<open>Properties of the escape processing\<close>

lemma ReplaceAll_append_free:
  "a \<notin> set xs \<Longrightarrow> ReplaceAll (xs @ s) (a, b) new = xs @ ReplaceAll s (a, b) new"
proof (induction xs)
  case Nil
  then show ?case by simp
next
  case (Cons x xs)
  then have x: "x \<noteq> a" and IH: "ReplaceAll (xs @ s) (a, b) new = xs @ ReplaceAll s (a, b) new"
    by auto
  show ?case
  proof (cases "xs @ s")
    case Nil
    then show ?thesis by simp
  next
    case (Cons y r)
    then show ?thesis using x IH by simp
  qed
qed

lemma ReplaceAll_free: "a \<notin> set s \<Longrightarrow> ReplaceAll s (a, b) new = s"
  using ReplaceAll_append_free [of a s "[]" b new] by simp

lemma ReplaceAll_length: "length new \<le> 2 \<Longrightarrow> length (ReplaceAll s old new) \<le> length s"
  by (induction s old new rule: ReplaceAll.induct) auto

lemma unescapeStructuralBlockContent_length:
  "length (unescapeStructuralBlockContent c) \<le> length c"
proof -
  have "length (ReplaceAll (ReplaceAll c (bslash, bslash) [bslash]) (bslash, CHR ''~'') ''~'')
        \<le> length (ReplaceAll c (bslash, bslash) [bslash])"
    by (rule ReplaceAll_length) simp
  also have "\<dots> \<le> length c" by (rule ReplaceAll_length) simp
  finally show ?thesis by (simp add: unescapeStructuralBlockContent_def)
qed

lemma ReplaceAll_Cons_other: "x \<noteq> a \<Longrightarrow> ReplaceAll (x # s) (a, b) new = x # ReplaceAll s (a, b) new"
  by (cases s) simp_all

lemma ReplaceAll_pair_head:
  "\<not> HasPrefix s ''~'' \<Longrightarrow> \<not> HasPrefix (ReplaceAll s (bslash, bslash) [bslash]) ''~''"
proof (cases s)
  case Nil
  then show ?thesis by (simp add: HasPrefix_def)
next
  case (Cons x r)
  assume "\<not> HasPrefix s ''~''"
  with Cons have x: "x \<noteq> CHR ''~''" by (simp add: HasPrefix_def)
  show ?thesis
  proof (cases r)
    case Nil
    with Cons x show ?thesis by (simp add: HasPrefix_def)
  next
    case (Cons y t)
    with \<open>s = x # r\<close> x show ?thesis by (simp add: HasPrefix_def)
  qed
qed

lemma ReplaceAll_bslash_head:
  "\<not> HasPrefix t ''~'' \<Longrightarrow>
   ReplaceAll (bslash # t) (bslash, CHR ''~'') ''~'' = bslash # ReplaceAll t (bslash, CHR ''~'') ''~''"
  by (cases t) (simp_all add: HasPrefix_def)

lemma unescape_slipFree:
  "slipFree s \<Longrightarrow> unescapeStructuralBlockContent s = specDecodeBlock s"
proof (induction s rule: specDecodeBlock.induct)
  case (1 a b s)
  show ?case
  proof (cases "a = bslash")
    case False
    with 1 show ?thesis
      by (simp add: unescapeStructuralBlockContent_def ReplaceAll_Cons_other)
  next
    case a: True
    show ?thesis
    proof (cases "b = bslash")
      case True
      with a 1 have h: "\<not> HasPrefix s ''~''" and sf: "slipFree s" by simp_all
      from 1(1) a True sf have IH: "unescapeStructuralBlockContent s = specDecodeBlock s" by simp
      from ReplaceAll_bslash_head [OF ReplaceAll_pair_head [OF h]] IH a True
      show ?thesis by (simp add: unescapeStructuralBlockContent_def)
    next
      case nb: False
      show ?thesis
      proof (cases "b = CHR ''~''")
        case True
        with a 1 have sf: "slipFree s" by simp
        from 1(1) a True sf have IH: "unescapeStructuralBlockContent s = specDecodeBlock s" by simp
        with a True show ?thesis
          by (simp add: unescapeStructuralBlockContent_def ReplaceAll_Cons_other)
      next
        case False
        with a nb 1 have sf: "slipFree (b # s)" by simp
        from 1(2) a nb False sf have IH: "unescapeStructuralBlockContent (b # s) = specDecodeBlock (b # s)" by simp
        with a nb False show ?thesis
          by (simp add: unescapeStructuralBlockContent_def ReplaceAll_Cons_other)
      qed
    qed
  qed
qed (simp_all add: unescapeStructuralBlockContent_def)

lemma unescape_escape_step:
  assumes xs: "bslash \<notin> set xs"
  shows "unescapeStructuralBlockContent (xs @ [bslash, CHR ''~''] @ ys) =
           xs @ ''~'' @ unescapeStructuralBlockContent ys"
    and "c \<noteq> bslash \<Longrightarrow> c \<noteq> CHR ''~'' \<Longrightarrow>
         unescapeStructuralBlockContent (xs @ [bslash, c] @ ys) =
           xs @ [bslash, c] @ unescapeStructuralBlockContent ys"
    and "\<not> HasPrefix ys ''~'' \<Longrightarrow>
         unescapeStructuralBlockContent (xs @ [bslash, bslash] @ ys) =
           xs @ [bslash] @ unescapeStructuralBlockContent ys"
proof -
  show "unescapeStructuralBlockContent (xs @ [bslash, CHR ''~''] @ ys) =
           xs @ ''~'' @ unescapeStructuralBlockContent ys"
    using xs by (simp add: unescapeStructuralBlockContent_def ReplaceAll_append_free ReplaceAll_Cons_other)
  show "unescapeStructuralBlockContent (xs @ [bslash, c] @ ys) =
           xs @ [bslash, c] @ unescapeStructuralBlockContent ys"
    if "c \<noteq> bslash" "c \<noteq> CHR ''~''"
    using xs that by (simp add: unescapeStructuralBlockContent_def ReplaceAll_append_free ReplaceAll_Cons_other)
  show "unescapeStructuralBlockContent (xs @ [bslash, bslash] @ ys) =
           xs @ [bslash] @ unescapeStructuralBlockContent ys"
    if "\<not> HasPrefix ys ''~''"
    using xs ReplaceAll_bslash_head [OF ReplaceAll_pair_head [OF that]]
    by (simp add: unescapeStructuralBlockContent_def ReplaceAll_append_free)
qed

text \<open>
  C5, as stated, fails: the decoding of structural block content does not resolve
  \<open>\{\<close> and \<open>\}\<close>. The content \<open>\{\<close> comes back unchanged.
\<close>

theorem C5_braces_counterexample:
  "unescapeStructuralBlockContent [bslash, CHR ''{''] = [bslash, CHR ''{''] \<and>
   unescapeStructuralBlockContent [bslash, CHR ''{''] \<noteq> ''{'' \<and>
   unescapeStructuralBlockContent [bslash, CHR ''}''] = [bslash, CHR ''}''] \<and>
   unescapeStructuralBlockContent [bslash, CHR ''}''] \<noteq> ''}''"
  by (simp add: unescapeStructuralBlockContent_def)

text \<open>
  C5, amended: for every block content in which no backslash pair stands directly in
  front of a tilde (\<open>slipFree\<close>), the decoding is the pass from left to right that
  resolves the backslash pair to one backslash and \<open>\~\<close> to \<open>~\<close> and keeps every other
  byte, so that \<open>\{\<close> and \<open>\}\<close> stay as they are (\<open>specDecodeBlock\<close>). In any
  content, an escape behind a stretch \<open>xs\<close> without backslash is decoded on its own and
  the decoding goes on behind it: \<open>\~\<close> gives \<open>~\<close>, \<open>\{\<close> and \<open>\}\<close> are kept, and the
  backslash pair gives one backslash when no tilde follows it.
\<close>

theorem C5_structural_unescape:
  "(slipFree s \<longrightarrow> unescapeStructuralBlockContent s = specDecodeBlock s) \<and>
   (bslash \<notin> set xs \<longrightarrow>
      unescapeStructuralBlockContent (xs @ [bslash, CHR ''~''] @ ys) =
        xs @ ''~'' @ unescapeStructuralBlockContent ys \<and>
      unescapeStructuralBlockContent (xs @ [bslash, CHR ''{''] @ ys) =
        xs @ [bslash, CHR ''{''] @ unescapeStructuralBlockContent ys \<and>
      unescapeStructuralBlockContent (xs @ [bslash, CHR ''}''] @ ys) =
        xs @ [bslash, CHR ''}''] @ unescapeStructuralBlockContent ys \<and>
      (\<not> HasPrefix ys ''~'' \<longrightarrow>
         unescapeStructuralBlockContent (xs @ [bslash, bslash] @ ys) =
           xs @ [bslash] @ unescapeStructuralBlockContent ys))"
  using unescape_slipFree [of s] unescape_escape_step(1) [of xs ys]
    unescape_escape_step(2) [of xs "CHR ''{''" ys] unescape_escape_step(2) [of xs "CHR ''}''" ys]
    unescape_escape_step(3) [of xs ys]
  by simp

theorem C5_structural_unescape_witness:
  "slipFree (''a'' @ [bslash, CHR ''~''] @ ''b'' @ [bslash, bslash] @ ''c'' @ [bslash, CHR ''{''] @
             ''d'' @ [bslash, CHR ''~''] @ [bslash, bslash, bslash, CHR ''~'']) \<and>
   unescapeStructuralBlockContent
     (''a'' @ [bslash, CHR ''~''] @ ''b'' @ [bslash, bslash] @ ''c'' @ [bslash, CHR ''{''] @
      ''d'' @ [bslash, CHR ''~''] @ [bslash, bslash, bslash, CHR ''~'']) =
     ''a~b'' @ [bslash] @ ''c'' @ [bslash, CHR ''{''] @ ''d~'' @ [bslash] @ ''~'' \<and>
   unescapeStructuralBlockContent (''ab'' @ [bslash, CHR ''}''] @ ''c'' @ [bslash, CHR ''~''] @ ''d'') =
     ''ab'' @ [bslash, CHR ''}''] @ ''c~d'' \<and>
   unescapeStructuralBlockContent (''ab'' @ [bslash, bslash] @ ''c'' @ [bslash, CHR ''~''] @ ''d'') =
     ''ab'' @ [bslash] @ ''c~d''"
proof -
  have sf: "slipFree (''a'' @ [bslash, CHR ''~''] @ ''b'' @ [bslash, bslash] @ ''c'' @ [bslash, CHR ''{''] @
             ''d'' @ [bslash, CHR ''~''] @ [bslash, bslash, bslash, CHR ''~''])"
    by (simp add: HasPrefix_def)
  have sd: "specDecodeBlock (''a'' @ [bslash, CHR ''~''] @ ''b'' @ [bslash, bslash] @ ''c'' @ [bslash, CHR ''{''] @
             ''d'' @ [bslash, CHR ''~''] @ [bslash, bslash, bslash, CHR ''~'']) =
     ''a~b'' @ [bslash] @ ''c'' @ [bslash, CHR ''{''] @ ''d~'' @ [bslash] @ ''~''"
    by simp
  have r: "unescapeStructuralBlockContent (''c'' @ [bslash, CHR ''~''] @ ''d'') = ''c~d''"
    by (simp add: unescapeStructuralBlockContent_def)
  have x: "bslash \<notin> set ''ab''" and y: "\<not> HasPrefix (''c'' @ [bslash, CHR ''~''] @ ''d'') ''~''"
    by (simp_all add: HasPrefix_def)
  from C5_structural_unescape
    [of "''a'' @ [bslash, CHR ''~''] @ ''b'' @ [bslash, bslash] @ ''c'' @ [bslash, CHR ''{''] @
         ''d'' @ [bslash, CHR ''~''] @ [bslash, bslash, bslash, CHR ''~'']"
        "''ab''" "''c'' @ [bslash, CHR ''~''] @ ''d''"] sf sd r x y
  show ?thesis by simp
qed

text \<open>
  C6: the decoding is a chain of whole-string replacements, not one pass, so a backslash
  left by the backslash pair is read again by the next replacement. The three bytes
  backslash, backslash, \<open>{\<close> decode to \<open>{\<close> where one pass from left to right gives
  backslash, \<open>{\<close>; the five bytes with four backslashes decode to backslash, \<open>{\<close>
  where one pass gives two backslashes and \<open>{\<close>; in block content backslash,
  backslash, \<open>~\<close> decodes to \<open>~\<close>. The document of the seven bytes \<open>{\<close>, \<open>+\<close>,
  backslash, backslash, \<open>{\<close>, \<open>+\<close>, \<open>}\<close> parses to an addition whose content is
  \<open>{\<close>.
\<close>

theorem C6_decodes_twice:
  "unescapeInlineContent [bslash, bslash, CHR ''{''] EditTypeAddition = ''{'' \<and>
   specDecode (CHR ''+'') [bslash, bslash, CHR ''{''] = [bslash, CHR ''{''] \<and>
   unescapeInlineContent [bslash, bslash, bslash, bslash, CHR ''{''] EditTypeAddition =
     [bslash, CHR ''{''] \<and>
   specDecode (CHR ''+'') [bslash, bslash, bslash, bslash, CHR ''{''] =
     [bslash, bslash, CHR ''{''] \<and>
   unescapeStructuralBlockContent [bslash, bslash, CHR ''~''] = ''~'' \<and>
   specDecode (CHR ''~'') [bslash, bslash, CHR ''~''] = [bslash, CHR ''~''] \<and>
   ParseEditMLToNodes [CHR ''{'', CHR ''+'', bslash, bslash, CHR ''{'', CHR ''+'', CHR ''}''] =
     ([InlineEditNode EditTypeAddition ''{'' []], None)"
  by code_simp

section \<open>Properties of the matching stage\<close>






lemma FindAll_skip_all: "length r \<le> skip \<Longrightarrow> FindAll matchAt len skip pos r = []"
  by (induction r arbitrary: skip pos) auto

lemma FindAll_none: "(\<And>i. matchAt (drop i s) = None) \<Longrightarrow> FindAll matchAt len 0 pos s = []"
proof (induction s arbitrary: pos)
  case Nil
  then show ?case by simp
next
  case (Cons c r)
  have "matchAt (c # r) = None" using Cons.prems [of 0] by simp
  moreover have "FindAll matchAt len 0 (Suc pos) r = []"
  proof (rule Cons.IH)
    fix i show "matchAt (drop i r) = None" using Cons.prems [of "Suc i"] by simp
  qed
  ultimately show ?case by simp
qed



section \<open>The overlap resolver\<close>

lemma matchLess_specKey: "matchLess y x = (\<not> specKey x \<le> specKey y)"
  by (auto simp: matchLess_def specKey_def less_eq_prod_def)

lemma insertBy_insort: "insertBy matchLess x ys = insort_key specKey x ys"
  by (induction ys) (simp_all add: matchLess_specKey)

lemma sortSlice_specSort: "sortSlice matchLess cs = specSort cs"
  by (induction cs) (simp_all add: sortSlice_def specSort_def insertBy_insort)

lemma interleave_specWalk:
  "(case interleave input ms (nodes, cur) of
      (ns, l) \<Rightarrow> if l < length input then ns @ [TextNode (drop l input)] else ns)
   = nodes @ specWalk input cur ms"
  by (induction ms arbitrary: nodes cur) simp_all

lemma buildNodes_specMerge: "buildNodes input cs = specMerge input cs"
  using interleave_specWalk [of input "specSort cs" "[]" 0]
  by (simp add: buildNodes_def specMerge_def sortSlice_specSort)

text \<open>
  C2: the node sequence of the parser is the merge of section 4.3 applied to the
  candidates of the matching stage, and steps 9 and 10 of the code are that merge for
  every candidate list. The sort of the merge gives a permutation of the candidates in
  the order of the key (start ascending, then end descending).
\<close>

theorem C2_parse_is_merge:
  "ParseEditMLToNodes input = (specMerge input (allMatches input), None) \<and>
   buildNodes input cs = specMerge input cs \<and>
   sortSlice matchLess cs = specSort cs \<and>
   sorted (map specKey (specSort cs)) \<and> mset (specSort cs) = mset cs"
proof -
  have "ParseEditMLToNodes input = (specMerge input (allMatches input), None)"
    by (auto simp: ParseEditMLToNodes_def buildNodes_specMerge Let_def)
  moreover have "sorted (map specKey (specSort cs)) \<and> mset (specSort cs) = mset cs"
    by (simp add: specSort_def)
  ultimately show ?thesis by (simp add: buildNodes_specMerge sortSlice_specSort)
qed

theorem C2_parse_is_merge_witness:
  "specMerge ''a{+b{-c-}+}d'' (allMatches ''a{+b{-c-}+}d'') =
     [TextNode ''a'', InlineEditNode EditTypeAddition ''b{-c-}'' [], TextNode ''d''] \<and>
   map (\<lambda>m. (startIndex m, endIndex m)) (allMatches ''a{+b{-c-}+}d'') = [(1, 11), (4, 9)]"
proof -
  have "ParseEditMLToNodes ''a{+b{-c-}+}d'' =
          ([TextNode ''a'', InlineEditNode EditTypeAddition ''b{-c-}'' [], TextNode ''d''], None)"
    by code_simp
  moreover have "map (\<lambda>m. (startIndex m, endIndex m)) (allMatches ''a{+b{-c-}+}d'') = [(1, 11), (4, 9)]"
    by code_simp
  ultimately show ?thesis using C2_parse_is_merge [of "''a{+b{-c-}+}d''"] by simp
qed

section \<open>Every candidate lies inside the input\<close>

lemma HasPrefix_length: "HasPrefix s p \<Longrightarrow> length p \<le> length s"
proof -
  assume "HasPrefix s p"
  then have "length (take (length p) s) = length p" unfolding HasPrefix_def by simp
  then show ?thesis by simp
qed

lemma inlineTail_length: "inlineTail cl s = Some k \<Longrightarrow> k + 2 \<le> length s"
proof -
  assume a: "inlineTail cl s = Some k"
  then obtain c r where s: "s = c # r" by (cases s) (auto simp: inlineTail_def)
  from a s have "HasPrefix (drop k r) ''}''"
    by (auto simp: inlineTail_def Let_def split: if_splits)
  from HasPrefix_length [OF this] show ?thesis using s by simp
qed

lemma scanInline_length:
  "scanInline cl n s = Some (n', k) \<Longrightarrow> n \<le> n' \<and> n' + k + 2 \<le> n + length s"
proof (induction s arbitrary: n)
  case Nil
  then show ?case by simp
next
  case (Cons c r)
  show ?case
  proof (cases "inlineTail cl (c # r)")
    case None
    with Cons.prems have "scanInline cl (Suc n) r = Some (n', k)" by simp
    from Cons.IH [OF this] show ?thesis by simp
  next
    case (Some k')
    with Cons.prems have "n' = n" "k' = k" by simp_all
    with inlineTail_length [OF Some] show ?thesis by simp
  qed
qed

lemma matchInlineAt_length: "matchInlineAt opn cl s = Some g \<Longrightarrow> inlineLen g \<le> length s"
proof -
  assume a: "matchInlineAt opn cl s = Some g"
  obtain n k where g: "g = (n, k)" by (cases g)
  from a obtain x y r where s: "s = x # y # r" and sc: "scanInline cl 0 r = Some (n, k)"
    unfolding g by (auto simp: matchInlineAt_def split: list.splits if_splits)
  from scanInline_length [OF sc] show ?thesis by (simp add: g s inlineLen_def)
qed

lemma matchKeyword_length: "matchKeyword kws d s = Some w \<Longrightarrow> w + 1 \<le> length s"
proof (induction kws)
  case Nil
  then show ?case by simp
next
  case (Cons kw kws)
  show ?case
  proof (cases "HasPrefix s (kw @ [d])")
    case True
    from HasPrefix_length [OF True] Cons.prems True show ?thesis by simp
  next
    case False
    with Cons show ?thesis by simp
  qed
qed

lemma tagTail_length: "tagTail s = Some k \<Longrightarrow> k + 1 \<le> length s"
proof -
  assume "tagTail s = Some k"
  then have "HasPrefix (drop k s) ''}''"
    by (auto simp: tagTail_def Let_def split: if_splits)
  from HasPrefix_length [OF this] show ?thesis by simp
qed

lemma scanSource_length:
  "scanSource n s = Some (n', k) \<Longrightarrow> n \<le> n' \<and> n' + k + 2 \<le> n + length s"
proof (induction s arbitrary: n)
  case Nil
  then show ?case by simp
next
  case (Cons c r)
  show ?case
  proof (cases "if c = CHR ''~'' then tagTail r else None")
    case None
    with Cons.prems have "scanSource (Suc n) r = Some (n', k)" by simp
    from Cons.IH [OF this] show ?thesis by simp
  next
    case (Some k')
    with Cons.prems have nk: "n' = n" "k' = k" by simp_all
    from Some have "tagTail r = Some k'" by (simp split: if_splits)
    from tagTail_length [OF this] nk show ?thesis by simp
  qed
qed

lemma matchSourceAt_length: "matchSourceAt kws s = Some g \<Longrightarrow> sourceLen g \<le> length s"
proof -
  assume a: "matchSourceAt kws s = Some g"
  obtain w n k where g: "g = (w, n, k)" by (cases g)
  from a obtain x r where s: "s = x # r" and kw: "matchKeyword kws (CHR ''~'') r = Some w"
    and sc: "scanSource 0 (drop (Suc w) r) = Some (n, k)"
    unfolding g by (auto simp: matchSourceAt_def split: list.splits if_splits option.splits)
  from scanSource_length [OF sc] matchKeyword_length [OF kw]
  show ?thesis by (simp add: g s sourceLen_def)
qed

lemma matchTargetAt_length: "matchTargetAt kws s = Some g \<Longrightarrow> targetLen g \<le> length s"
proof -
  assume a: "matchTargetAt kws s = Some g"
  obtain w k where g: "g = (w, k)" by (cases g)
  from a obtain x r where s: "s = x # r" and kw: "matchKeyword kws (CHR '':'') r = Some w"
    and sc: "tagTail (drop (Suc w) r) = Some k"
    unfolding g by (auto simp: matchTargetAt_def split: list.splits if_splits option.splits)
  from tagTail_length [OF sc] matchKeyword_length [OF kw]
  show ?thesis by (simp add: g s targetLen_def)
qed

lemma FindAll_range:
  assumes len: "\<And>s g. matchAt s = Some g \<Longrightarrow> len g \<le> length s"
  shows "(p, g) \<in> set (FindAll matchAt len skip pos s) \<Longrightarrow> pos \<le> p \<and> p + len g \<le> pos + length s"
proof (induction s arbitrary: skip pos)
  case Nil
  then show ?case by simp
next
  case (Cons c r)
  show ?case
  proof (cases "0 < skip")
    case True
    with Cons.prems have "(p, g) \<in> set (FindAll matchAt len (skip - 1) (Suc pos) r)" by simp
    from Cons.IH [OF this] show ?thesis by simp
  next
    case False
    show ?thesis
    proof (cases "matchAt (c # r)")
      case None
      with False Cons.prems have "(p, g) \<in> set (FindAll matchAt len 0 (Suc pos) r)" by simp
      from Cons.IH [OF this] show ?thesis by simp
    next
      case (Some g')
      with False Cons.prems
      consider "p = pos" "g = g'" | "(p, g) \<in> set (FindAll matchAt len (len g' - 1) (Suc pos) r)"
        by auto
      then show ?thesis
      proof cases
        case 1
        with len [OF Some] show ?thesis by simp
      next
        case 2
        from Cons.IH [OF this] show ?thesis by simp
      qed
    qed
  qed
qed

section \<open>The order of the candidates\<close>

lemma FindAll_positions:
  "sorted_wrt (<) (map fst (FindAll matchAt len skip pos s)) \<and>
   (\<forall>p\<in>set (map fst (FindAll matchAt len skip pos s)). pos \<le> p)"
proof (induction s arbitrary: skip pos)
  case Nil
  then show ?case by simp
next
  case (Cons c r)
  have lt: "\<forall>p\<in>set (map fst (FindAll matchAt len k (Suc pos) r)). pos < p" for k
    using Cons.IH [of k "Suc pos"] by auto
  have le: "\<forall>p\<in>set (map fst (FindAll matchAt len k (Suc pos) r)). pos \<le> p" for k
    using lt [of k] by auto
  show ?case
  proof (cases "0 < skip")
    case True
    then show ?thesis using Cons.IH [of "skip - 1" "Suc pos"] le [of "skip - 1"] by simp
  next
    case False
    show ?thesis
    proof (cases "matchAt (c # r)")
      case None
      then show ?thesis using False Cons.IH [of 0 "Suc pos"] le [of 0] by simp
    next
      case (Some g)
      then show ?thesis
        using False Cons.IH [of "len g - 1" "Suc pos"] lt [of "len g - 1"] le [of "len g - 1"]
        by simp
    qed
  qed
qed

lemma FindAll_distinct: "distinct (map fst (FindAll matchAt len skip pos s))"
  using FindAll_positions [of matchAt len skip pos s] strict_sorted_iff by blast

lemma FindAll_match_at:
  "(p, g) \<in> set (FindAll matchAt len skip pos s) \<Longrightarrow>
   pos \<le> p \<and> matchAt (drop (p - pos) s) = Some g"
proof (induction s arbitrary: skip pos)
  case Nil
  then show ?case by simp
next
  case (Cons c r)
  have rest: "pos \<le> p \<and> matchAt (drop (p - pos) (c # r)) = Some g"
    if "(p, g) \<in> set (FindAll matchAt len k (Suc pos) r)" for k
  proof -
    from Cons.IH [OF that] have "Suc pos \<le> p" "matchAt (drop (p - Suc pos) r) = Some g" by simp_all
    moreover from this(1) have "p - pos = Suc (p - Suc pos)" by simp
    ultimately show ?thesis by simp
  qed
  show ?case
  proof (cases "0 < skip")
    case True
    with Cons.prems rest [of "skip - 1"] show ?thesis by simp
  next
    case False
    show ?thesis
    proof (cases "matchAt (c # r)")
      case None
      with False Cons.prems rest [of 0] show ?thesis by simp
    next
      case (Some g')
      with False Cons.prems
      consider "p = pos" "g = g'" | "(p, g) \<in> set (FindAll matchAt len (len g' - 1) (Suc pos) r)"
        by auto
      then show ?thesis
      proof cases
        case 1
        with Some show ?thesis by simp
      next
        case 2
        from rest [OF this] show ?thesis .
      qed
    qed
  qed
qed

lemma matchInlineAt_opening:
  "matchInlineAt opn cl t = Some g \<Longrightarrow> \<exists>r. t = CHR ''{'' # opn # r"
  by (auto simp: matchInlineAt_def split: list.splits if_splits)

lemma matchKeyword_keywordAt: "matchKeyword kws d s = Some w \<Longrightarrow> keywordAt kws d s"
  by (induction kws) (auto simp: keywordAt_def split: if_splits)

lemma matchSourceAt_opening:
  "matchSourceAt kws t = Some g \<Longrightarrow> \<exists>r. t = CHR ''{'' # r \<and> keywordAt kws (CHR ''~'') r"
  by (auto simp: matchSourceAt_def matchKeyword_keywordAt split: list.splits if_splits option.splits)

lemma matchTargetAt_opening:
  "matchTargetAt kws t = Some g \<Longrightarrow> \<exists>r. t = CHR ''{'' # r \<and> keywordAt kws (CHR '':'') r"
  by (auto simp: matchTargetAt_def matchKeyword_keywordAt split: list.splits if_splits option.splits)

lemma HasPrefix_append: "HasPrefix s p \<Longrightarrow> \<exists>x. s = p @ x"
  unfolding HasPrefix_def by (metis append_take_drop_id)

lemma keywordAt_move:
  "keywordAt moveKeywords d r \<Longrightarrow>
   (\<exists>x. r = ''move'' @ d # x) \<or> (\<exists>x. r = ''mv'' @ d # x) \<or> (\<exists>x. r = ''m'' @ d # x)"
  unfolding keywordAt_def using HasPrefix_append by fastforce

lemma keywordAt_copy:
  "keywordAt copyKeywords d r \<Longrightarrow>
   (\<exists>x. r = ''copy'' @ d # x) \<or> (\<exists>x. r = ''cp'' @ d # x) \<or> (\<exists>x. r = ''c'' @ d # x)"
  unfolding keywordAt_def using HasPrefix_append by fastforce

lemma openingAt_inline:
  "openingAt (CHR ''{'' # CHR ''+'' # r) = 1"
  "openingAt (CHR ''{'' # CHR ''-'' # r) = 2"
  "openingAt (CHR ''{'' # CHR ''>'' # r) = 3"
  "openingAt (CHR ''{'' # CHR ''='' # r) = 4"
  by (simp_all add: openingAt_def HasPrefix_def)

lemma openingAt_move_source:
  assumes "keywordAt moveKeywords (CHR ''~'') r"
  shows "openingAt (CHR ''{'' # r) = 5"
proof -
  from keywordAt_move [OF assms] have "\<not> HasPrefix r ''+''" "\<not> HasPrefix r ''-''"
    "\<not> HasPrefix r ''>''" "\<not> HasPrefix r ''=''"
    by (auto simp: HasPrefix_def)
  with assms show ?thesis by (simp add: openingAt_def)
qed

lemma openingAt_move_target:
  assumes "keywordAt moveKeywords (CHR '':'') r"
  shows "openingAt (CHR ''{'' # r) = 6"
proof -
  from keywordAt_move [OF assms] have "\<not> HasPrefix r ''+''" "\<not> HasPrefix r ''-''"
    "\<not> HasPrefix r ''>''" "\<not> HasPrefix r ''=''" "\<not> keywordAt moveKeywords (CHR ''~'') r"
    by (auto simp: HasPrefix_def keywordAt_def)
  with assms show ?thesis by (simp add: openingAt_def)
qed

lemma openingAt_copy_source:
  assumes "keywordAt copyKeywords (CHR ''~'') r"
  shows "openingAt (CHR ''{'' # r) = 7"
proof -
  from keywordAt_copy [OF assms] have "\<not> HasPrefix r ''+''" "\<not> HasPrefix r ''-''"
    "\<not> HasPrefix r ''>''" "\<not> HasPrefix r ''=''" "\<not> keywordAt moveKeywords (CHR ''~'') r"
    "\<not> keywordAt moveKeywords (CHR '':'') r"
    by (auto simp: HasPrefix_def keywordAt_def)
  with assms show ?thesis by (simp add: openingAt_def)
qed

lemma openingAt_copy_target:
  assumes "keywordAt copyKeywords (CHR '':'') r"
  shows "openingAt (CHR ''{'' # r) = 8"
proof -
  from keywordAt_copy [OF assms] have "\<not> HasPrefix r ''+''" "\<not> HasPrefix r ''-''"
    "\<not> HasPrefix r ''>''" "\<not> HasPrefix r ''=''" "\<not> keywordAt moveKeywords (CHR ''~'') r"
    "\<not> keywordAt moveKeywords (CHR '':'') r" "\<not> keywordAt copyKeywords (CHR ''~'') r"
    by (auto simp: HasPrefix_def keywordAt_def)
  with assms show ?thesis by (simp add: openingAt_def)
qed

lemma inlineMatches_starts:
  "map startIndex (inlineMatches opn cl editType input) =
     map fst (FindAll (matchInlineAt opn cl) inlineLen 0 0 input)"
  by (simp add: inlineMatches_def Let_def case_prod_unfold comp_def)

lemma sourceMatches_starts:
  "map startIndex (sourceMatches kws operation input) =
     map fst (FindAll (matchSourceAt kws) sourceLen 0 0 input)"
  by (simp add: sourceMatches_def Let_def case_prod_unfold comp_def)

lemma targetMatches_starts:
  "map startIndex (targetMatches kws operation input) =
     map fst (FindAll (matchTargetAt kws) targetLen 0 0 input)"
  by (simp add: targetMatches_def Let_def case_prod_unfold comp_def)

lemma inlineMatches_opening:
  assumes "m \<in> set (inlineMatches opn cl editType input)"
  shows "\<exists>r. drop (startIndex m) input = CHR ''{'' # opn # r"
proof -
  from assms obtain g where "(startIndex m, g) \<in> set (FindAll (matchInlineAt opn cl) inlineLen 0 0 input)"
    by (auto simp: inlineMatches_def Let_def)
  from FindAll_match_at [OF this] matchInlineAt_opening show ?thesis by fastforce
qed

lemma sourceMatches_opening:
  assumes "m \<in> set (sourceMatches kws operation input)"
  shows "\<exists>r. drop (startIndex m) input = CHR ''{'' # r \<and> keywordAt kws (CHR ''~'') r"
proof -
  from assms obtain g where "(startIndex m, g) \<in> set (FindAll (matchSourceAt kws) sourceLen 0 0 input)"
    by (auto simp: sourceMatches_def Let_def)
  from FindAll_match_at [OF this] matchSourceAt_opening show ?thesis by fastforce
qed

lemma targetMatches_opening:
  assumes "m \<in> set (targetMatches kws operation input)"
  shows "\<exists>r. drop (startIndex m) input = CHR ''{'' # r \<and> keywordAt kws (CHR '':'') r"
proof -
  from assms obtain g where "(startIndex m, g) \<in> set (FindAll (matchTargetAt kws) targetLen 0 0 input)"
    by (auto simp: targetMatches_def Let_def)
  from FindAll_match_at [OF this] matchTargetAt_opening show ?thesis by fastforce
qed

lemma starts_disjoint:
  assumes "\<And>m. m \<in> set A \<Longrightarrow> openingAt (drop (startIndex m) input) = i"
    and "\<And>m. m \<in> set B \<Longrightarrow> openingAt (drop (startIndex m) input) = j"
    and "i \<noteq> j"
  shows "set (map startIndex A) \<inter> set (map startIndex B) = {}"
proof (rule ccontr)
  assume "set (map startIndex A) \<inter> set (map startIndex B) \<noteq> {}"
  then obtain a b where "a \<in> set A" "b \<in> set B" "startIndex a = startIndex b" by auto
  with assms(1) [of a] assms(2) [of b] assms(3) show False by simp
qed

lemma allMatches_distinct_starts: "distinct (map startIndex (allMatches input))"
proof -
  let ?c = "\<lambda>m. openingAt (drop (startIndex m) input)"
  let ?A1 = "inlineMatches (CHR ''+'') (CHR ''+'') EditTypeAddition input"
  let ?A2 = "inlineMatches (CHR ''-'') (CHR ''-'') EditTypeDeletion input"
  let ?A3 = "inlineMatches (CHR ''>'') (CHR ''<'') EditTypeComment input"
  let ?A4 = "inlineMatches (CHR ''='') (CHR ''='') EditTypeHighlight input"
  let ?A5 = "sourceMatches moveKeywords OperationMove input"
  let ?A6 = "targetMatches moveKeywords OperationMove input"
  let ?A7 = "sourceMatches copyKeywords OperationCopy input"
  let ?A8 = "targetMatches copyKeywords OperationCopy input"
  have c1: "?c m = 1" if "m \<in> set ?A1" for m
    using inlineMatches_opening [OF that] by (auto simp: openingAt_inline)
  have c2: "?c m = 2" if "m \<in> set ?A2" for m
    using inlineMatches_opening [OF that] by (auto simp: openingAt_inline)
  have c3: "?c m = 3" if "m \<in> set ?A3" for m
    using inlineMatches_opening [OF that] by (auto simp: openingAt_inline)
  have c4: "?c m = 4" if "m \<in> set ?A4" for m
    using inlineMatches_opening [OF that] by (auto simp: openingAt_inline)
  have c5: "?c m = 5" if "m \<in> set ?A5" for m
    using sourceMatches_opening [OF that] by (auto simp: openingAt_move_source)
  have c6: "?c m = 6" if "m \<in> set ?A6" for m
    using targetMatches_opening [OF that] by (auto simp: openingAt_move_target)
  have c7: "?c m = 7" if "m \<in> set ?A7" for m
    using sourceMatches_opening [OF that] by (auto simp: openingAt_copy_source)
  have c8: "?c m = 8" if "m \<in> set ?A8" for m
    using targetMatches_opening [OF that] by (auto simp: openingAt_copy_target)
  have d: "distinct (map startIndex ?A1)" "distinct (map startIndex ?A2)"
    "distinct (map startIndex ?A3)" "distinct (map startIndex ?A4)"
    "distinct (map startIndex ?A5)" "distinct (map startIndex ?A6)"
    "distinct (map startIndex ?A7)" "distinct (map startIndex ?A8)"
    by (simp_all add: inlineMatches_starts sourceMatches_starts targetMatches_starts
        FindAll_distinct)
  note dj = starts_disjoint [of _ input _ _]
  have x: "set (map startIndex ?A1) \<inter> set (map startIndex ?A2) = {}"
    "set (map startIndex ?A1) \<inter> set (map startIndex ?A3) = {}"
    "set (map startIndex ?A1) \<inter> set (map startIndex ?A4) = {}"
    "set (map startIndex ?A1) \<inter> set (map startIndex ?A5) = {}"
    "set (map startIndex ?A1) \<inter> set (map startIndex ?A6) = {}"
    "set (map startIndex ?A1) \<inter> set (map startIndex ?A7) = {}"
    "set (map startIndex ?A1) \<inter> set (map startIndex ?A8) = {}"
    "set (map startIndex ?A2) \<inter> set (map startIndex ?A3) = {}"
    "set (map startIndex ?A2) \<inter> set (map startIndex ?A4) = {}"
    "set (map startIndex ?A2) \<inter> set (map startIndex ?A5) = {}"
    "set (map startIndex ?A2) \<inter> set (map startIndex ?A6) = {}"
    "set (map startIndex ?A2) \<inter> set (map startIndex ?A7) = {}"
    "set (map startIndex ?A2) \<inter> set (map startIndex ?A8) = {}"
    "set (map startIndex ?A3) \<inter> set (map startIndex ?A4) = {}"
    "set (map startIndex ?A3) \<inter> set (map startIndex ?A5) = {}"
    "set (map startIndex ?A3) \<inter> set (map startIndex ?A6) = {}"
    "set (map startIndex ?A3) \<inter> set (map startIndex ?A7) = {}"
    "set (map startIndex ?A3) \<inter> set (map startIndex ?A8) = {}"
    "set (map startIndex ?A4) \<inter> set (map startIndex ?A5) = {}"
    "set (map startIndex ?A4) \<inter> set (map startIndex ?A6) = {}"
    "set (map startIndex ?A4) \<inter> set (map startIndex ?A7) = {}"
    "set (map startIndex ?A4) \<inter> set (map startIndex ?A8) = {}"
    "set (map startIndex ?A5) \<inter> set (map startIndex ?A6) = {}"
    "set (map startIndex ?A5) \<inter> set (map startIndex ?A7) = {}"
    "set (map startIndex ?A5) \<inter> set (map startIndex ?A8) = {}"
    "set (map startIndex ?A6) \<inter> set (map startIndex ?A7) = {}"
    "set (map startIndex ?A6) \<inter> set (map startIndex ?A8) = {}"
    "set (map startIndex ?A7) \<inter> set (map startIndex ?A8) = {}"
    by (rule dj, erule c1 c2 c3 c4 c5 c6 c7 c8, erule c1 c2 c3 c4 c5 c6 c7 c8, simp)+
  show ?thesis
    unfolding allMatches_def map_append distinct_append set_append
    using d x by (simp only: Int_Un_distrib Int_Un_distrib2 Un_empty simp_thms)
qed

lemma specKey_inj_on:
  assumes "distinct (map startIndex xs)"
  shows "inj_on specKey (set xs)"
proof (rule inj_onI)
  fix a b assume "a \<in> set xs" "b \<in> set xs" "specKey a = specKey b"
  then have "startIndex a = startIndex b" by (simp add: specKey_def)
  with assms \<open>a \<in> set xs\<close> \<open>b \<in> set xs\<close> show "a = b"
    by (meson distinct_map inj_onD)
qed

text \<open>
  The candidates of the matching stage start at pairwise different offsets, so the
  function \<open>less\<close> of the source orders them totally: every permutation of the
  candidates that is ordered by \<open>less\<close>, which is all that \<open>sort.Slice\<close> promises of its
  result, is the list \<open>sortSlice\<close> gives.
\<close>

theorem sortSlice_determined:
  assumes perm: "mset ys = mset (allMatches input)"
    and srt: "sorted_wrt (\<lambda>a b. \<not> matchLess b a) ys"
  shows "ys = sortSlice matchLess (allMatches input)"
proof -
  let ?xs = "specSort (allMatches input)"
  have set_eq: "set ys = set (allMatches input)" using perm by (rule mset_eq_setD)
  have dx: "distinct (map startIndex (allMatches input))" by (rule allMatches_distinct_starts)
  have inj: "inj_on specKey (set (allMatches input))" using dx by (rule specKey_inj_on)
  have da: "distinct (allMatches input)" using dx by (simp add: distinct_map)
  then have dy: "distinct ys" using perm by (metis mset_eq_imp_distinct_iff)
  have 1: "inj_on specKey (set ys \<union> set ?xs)" using inj by (simp add: set_eq specSort_def)
  have 2: "sorted (map specKey ys)"
    using srt by (simp add: sorted_map matchLess_specKey)
  have 3: "distinct (map specKey ys)"
    using dy inj by (simp add: distinct_map set_eq)
  have 4: "sorted (map specKey ?xs)" by (simp add: specSort_def)
  have 5: "distinct (map specKey ?xs)"
    using da inj by (simp add: distinct_map specSort_def)
  have 6: "set ys = set ?xs" by (simp add: set_eq specSort_def)
  from map_sorted_distinct_set_unique [OF 1 2 3 4 5 6] show ?thesis
    by (simp add: sortSlice_specSort)
qed

theorem sortSlice_determined_witness:
  "sortSlice matchLess (allMatches ''a{+b{-c-}+}d'') =
     [\<lparr>startIndex = 1, endIndex = 11, node = InlineEditNode EditTypeAddition ''b{-c-}'' []\<rparr>,
      \<lparr>startIndex = 4, endIndex = 9, node = InlineEditNode EditTypeDeletion ''c'' []\<rparr>]"
proof -
  have a: "allMatches ''a{+b{-c-}+}d'' =
     [\<lparr>startIndex = 1, endIndex = 11, node = InlineEditNode EditTypeAddition ''b{-c-}'' []\<rparr>,
      \<lparr>startIndex = 4, endIndex = 9, node = InlineEditNode EditTypeDeletion ''c'' []\<rparr>]"
    by code_simp
  have s: "sorted_wrt (\<lambda>a b. \<not> matchLess b a)
     [\<lparr>startIndex = 1, endIndex = 11, node = InlineEditNode EditTypeAddition ''b{-c-}'' []\<rparr>,
      \<lparr>startIndex = 4, endIndex = 9, node = InlineEditNode EditTypeDeletion ''c'' []\<rparr>]"
    by (simp add: matchLess_def)
  from sortSlice_determined [of _ "''a{+b{-c-}+}d''", OF _ s] a show ?thesis by simp
qed

section \<open>The round trip through the parser\<close>

lemma inlineMatches_inRange: "m \<in> set (inlineMatches opn cl editType input) \<Longrightarrow> inRange input m"
proof -
  assume "m \<in> set (inlineMatches opn cl editType input)"
  then obtain p n k where pg: "(p, n, k) \<in> set (FindAll (matchInlineAt opn cl) inlineLen 0 0 input)"
    and m: "startIndex m = p" "endIndex m = p + inlineLen (n, k)"
    by (auto simp: inlineMatches_def Let_def)
  from FindAll_range [OF matchInlineAt_length pg] m show ?thesis by (simp add: inRange_def)
qed

lemma sourceMatches_inRange: "m \<in> set (sourceMatches kws operation input) \<Longrightarrow> inRange input m"
proof -
  assume "m \<in> set (sourceMatches kws operation input)"
  then obtain p g where pg: "(p, g) \<in> set (FindAll (matchSourceAt kws) sourceLen 0 0 input)"
    and m: "startIndex m = p" "endIndex m = p + sourceLen g"
    by (auto simp: sourceMatches_def Let_def)
  from FindAll_range [OF matchSourceAt_length pg] m show ?thesis by (simp add: inRange_def)
qed

lemma targetMatches_inRange: "m \<in> set (targetMatches kws operation input) \<Longrightarrow> inRange input m"
proof -
  assume "m \<in> set (targetMatches kws operation input)"
  then obtain p g where pg: "(p, g) \<in> set (FindAll (matchTargetAt kws) targetLen 0 0 input)"
    and m: "startIndex m = p" "endIndex m = p + targetLen g"
    by (auto simp: targetMatches_def Let_def)
  from FindAll_range [OF matchTargetAt_length pg] m show ?thesis by (simp add: inRange_def)
qed

lemma allMatches_inRange: "m \<in> set (allMatches input) \<Longrightarrow> inRange input m"
  unfolding allMatches_def
  using inlineMatches_inRange sourceMatches_inRange targetMatches_inRange
  by auto

lemma set_sortSlice: "set (sortSlice matchLess cs) = set cs"
  by (simp add: sortSlice_specSort specSort_def)

lemma interleave_pieces:
  "interleave input ms (map node ps, cur) =
     (case interleavePieces input ms (ps, cur) of (ps', l) \<Rightarrow> (map node ps', l))"
proof (induction ms arbitrary: ps cur)
  case Nil
  then show ?case by simp
next
  case (Cons m ms)
  define gap where "gap = \<lparr>startIndex = cur, endIndex = startIndex m,
                               node = TextNode (slice input cur (startIndex m))\<rparr>"
  show ?case
  proof (cases "startIndex m < cur")
    case True
    with Cons.IH [of ps cur] show ?thesis by simp
  next
    case False
    show ?thesis
    proof (cases "startIndex m > cur")
      case True
      with False Cons.IH [of "ps @ [gap, m]" "endIndex m"] show ?thesis
        by (simp add: gap_def)
    next
      case False
      with \<open>\<not> startIndex m < cur\<close> Cons.IH [of "ps @ [m]" "endIndex m"] show ?thesis
        by simp
    qed
  qed
qed

lemma contiguous_snoc:
  "contiguous a ps c \<Longrightarrow> startIndex p = c \<Longrightarrow> c \<le> endIndex p \<Longrightarrow>
   contiguous a (ps @ [p]) (endIndex p)"
  by (induction ps arbitrary: a) auto

lemma slice_append:
  "a \<le> c \<Longrightarrow> c \<le> b \<Longrightarrow> slice s a c @ slice s c b = slice s a b"
proof -
  assume ac: "a \<le> c" and cb: "c \<le> b"
  have "drop c s = drop (c - a) (drop a s)" using ac by simp
  moreover have "b - a = (c - a) + (b - c)" using ac cb by simp
  ultimately show ?thesis unfolding slice_def by (simp only: take_add)
qed

lemma contiguous_concat:
  "contiguous a ps b \<Longrightarrow> a \<le> b \<and> concat (map (originalSpan input) ps) = slice input a b"
proof (induction ps arbitrary: a)
  case Nil
  then show ?case by (simp add: slice_def)
next
  case (Cons p ps)
  then have p: "startIndex p = a" "a \<le> endIndex p" and rest: "contiguous (endIndex p) ps b"
    by simp_all
  from Cons.IH [OF rest] have le: "endIndex p \<le> b"
    and c: "concat (map (originalSpan input) ps) = slice input (endIndex p) b" by simp_all
  have "originalSpan input p = slice input a (endIndex p)"
    by (simp add: originalSpan_def p)
  with slice_append [OF p(2) le, of input] p c le show ?case
    by simp
qed

lemma interleavePieces_invariant:
  assumes "\<forall>m\<in>set ms. inRange input m \<and> m \<in> set (allMatches input)"
    and "contiguous 0 ps cur" and "cur \<le> length input" and "list_all (originalPiece input) ps"
  shows "case interleavePieces input ms (ps, cur) of
           (ps', l) \<Rightarrow> contiguous 0 ps' l \<and> l \<le> length input \<and> list_all (originalPiece input) ps'"
  using assms
proof (induction ms arbitrary: ps cur)
  case Nil
  then show ?case by simp
next
  case (Cons m ms)
  from Cons.prems(1) have m: "inRange input m" "m \<in> set (allMatches input)"
    and ms: "\<forall>m\<in>set ms. inRange input m \<and> m \<in> set (allMatches input)" by simp_all
  show ?case
  proof (cases "startIndex m < cur")
    case True
    with Cons.IH [OF ms Cons.prems(2) Cons.prems(3) Cons.prems(4)] show ?thesis by simp
  next
    case False
    define gap where "gap = \<lparr>startIndex = cur, endIndex = startIndex m,
                                 node = TextNode (slice input cur (startIndex m))\<rparr>"
    define ps1 where "ps1 = (if startIndex m > cur then ps @ [gap] else ps)"
    have c1: "contiguous 0 ps1 (startIndex m)"
    proof (cases "startIndex m > cur")
      case True
      from contiguous_snoc [OF Cons.prems(2), of gap] True show ?thesis
        by (simp add: ps1_def gap_def)
    next
      case False
      with \<open>\<not> startIndex m < cur\<close> have "startIndex m = cur" by simp
      with Cons.prems(2) False show ?thesis by (simp add: ps1_def)
    qed
    have "originalPiece input gap" by (simp add: gap_def originalPiece_def)
    then have o1: "list_all (originalPiece input) ps1"
      using Cons.prems(4) by (simp add: ps1_def)
    have c2: "contiguous 0 (ps1 @ [m]) (endIndex m)"
      using contiguous_snoc [OF c1, of m] m(1) by (simp add: inRange_def)
    have "originalPiece input m" using m(2) by (simp add: originalPiece_def)
    then have o2: "list_all (originalPiece input) (ps1 @ [m])"
      using o1 by simp
    have le: "endIndex m \<le> length input" using m(1) by (simp add: inRange_def)
    have "interleavePieces input (m # ms) (ps, cur) =
            interleavePieces input ms (ps1 @ [m], endIndex m)"
      using False by (simp add: ps1_def gap_def Let_def)
    with Cons.IH [OF ms c2 le o2] show ?thesis by simp
  qed
qed

lemma parsePieces_tiling:
  "map node (parsePieces input) = fst (ParseEditMLToNodes input) \<and>
   list_all (originalPiece input) (parsePieces input) \<and>
   contiguous 0 (parsePieces input) (length input)"
proof -
  define sorted where "sorted = sortSlice matchLess (allMatches input)"
  obtain ps l where r: "interleavePieces input sorted ([], 0) = (ps, l)"
    by (cases "interleavePieces input sorted ([], 0)")
  have all: "\<forall>m\<in>set sorted. inRange input m \<and> m \<in> set (allMatches input)"
    by (simp add: sorted_def set_sortSlice allMatches_inRange)
  from interleavePieces_invariant [OF all, of "[]" 0] r
  have inv: "contiguous 0 ps l" "l \<le> length input" "list_all (originalPiece input) ps"
    by simp_all
  have nodes: "interleave input sorted ([], 0) = (map node ps, l)"
    using interleave_pieces [of input sorted "[]" 0] r by simp
  define tail where "tail = \<lparr>startIndex = l, endIndex = length input, node = TextNode (drop l input)\<rparr>"
  have pp: "parsePieces input = (if l < length input then ps @ [tail] else ps)"
    using r by (simp add: parsePieces_def sorted_def tail_def)
  have n: "map node (parsePieces input) = fst (ParseEditMLToNodes input)"
    using nodes by (auto simp: pp ParseEditMLToNodes_def buildNodes_def sorted_def tail_def Let_def)
  have "originalPiece input tail" by (simp add: tail_def originalPiece_def slice_def)
  then have o: "list_all (originalPiece input) (parsePieces input)"
    using inv(3) by (simp add: pp)
  have c: "contiguous 0 (parsePieces input) (length input)"
  proof (cases "l < length input")
    case True
    from contiguous_snoc [OF inv(1), of tail] True show ?thesis by (simp add: pp tail_def)
  next
    case False
    with inv(2) have "l = length input" by simp
    with inv(1) False show ?thesis by (simp add: pp)
  qed
  from n o c show ?thesis by simp
qed

text \<open>
  C9: the nodes of the parser, each with the index range it was taken from, tile the
  input from 0 to its length without gap or overlap; every Text node holds exactly its
  range and every markup node is a candidate of the matching stage with the range of its
  match; so the original literal forms, concatenated in order, are the input. This holds
  for every input, with or without overlapping candidates.
\<close>

theorem C9_round_trip:
  "map node (parsePieces input) = fst (ParseEditMLToNodes input) \<and>
   list_all (originalPiece input) (parsePieces input) \<and>
   contiguous 0 (parsePieces input) (length input) \<and>
   concat (map (originalSpan input) (parsePieces input)) = input"
proof -
  have c: "contiguous 0 (parsePieces input) (length input)"
    using parsePieces_tiling [of input] by simp
  from contiguous_concat [OF c, of input]
  have "concat (map (originalSpan input) (parsePieces input)) = input" by (simp add: slice_def)
  with parsePieces_tiling [of input] show ?thesis by simp
qed

theorem C9_round_trip_witness:
  "map (originalSpan ''a{+b{-c-}+}d'') (parsePieces ''a{+b{-c-}+}d'') =
     [''a'', ''{+b{-c-}+}'', ''d''] \<and>
   map node (parsePieces ''a{+b{-c-}+}d'') =
     [TextNode ''a'', InlineEditNode EditTypeAddition ''b{-c-}'' [], TextNode ''d''] \<and>
   fst (ParseEditMLToNodes ''a{+b{-c-}+}d'') = map node (parsePieces ''a{+b{-c-}+}d'') \<and>
   concat (map (originalSpan ''a{+b{-c-}+}d'') (parsePieces ''a{+b{-c-}+}d'')) = ''a{+b{-c-}+}d''"
proof -
  have "map (originalSpan ''a{+b{-c-}+}d'') (parsePieces ''a{+b{-c-}+}d'') =
          [''a'', ''{+b{-c-}+}'', ''d'']"
    by code_simp
  moreover have "map node (parsePieces ''a{+b{-c-}+}d'') =
     [TextNode ''a'', InlineEditNode EditTypeAddition ''b{-c-}'' [], TextNode ''d'']"
    by code_simp
  ultimately show ?thesis using C9_round_trip [of "''a{+b{-c-}+}d''"] by simp
qed

section \<open>The editor id of an inline span\<close>

















section \<open>The transformer returns\<close>

lemma slice_length: "length (slice s a b) \<le> b - a"
  by (simp add: slice_def)

lemma sourceMatches_node:
  assumes "m \<in> set (sourceMatches kws operation input)"
  shows "\<exists>tag c. node m = StructuralSourceNode operation tag c \<and> length c < length input"
proof -
  from assms obtain p w n k
    where pg: "(p, w, n, k) \<in> set (FindAll (matchSourceAt kws) sourceLen 0 0 input)"
      and m: "node m = StructuralSourceNode operation
                (slice input (p + 1 + w + 1 + n + 1) (p + 1 + w + 1 + n + 1 + k))
                (unescapeStructuralBlockContent (slice input (p + 1 + w + 1) (p + 1 + w + 1 + n)))"
    by (auto simp: sourceMatches_def Let_def)
  have "0 \<le> p \<and> p + sourceLen (w, n, k) \<le> 0 + length input"
  proof (rule FindAll_range [of "matchSourceAt kws" sourceLen])
    fix s g assume "matchSourceAt kws s = Some g"
    then show "sourceLen g \<le> length s" by (rule matchSourceAt_length)
  next
    show "(p, w, n, k) \<in> set (FindAll (matchSourceAt kws) sourceLen 0 0 input)" by (rule pg)
  qed
  then have "n < length input"
    by (simp add: sourceLen_def)
  moreover have "length (unescapeStructuralBlockContent (slice input (p + 1 + w + 1) (p + 1 + w + 1 + n))) \<le> n"
    using unescapeStructuralBlockContent_length [of "slice input (p + 1 + w + 1) (p + 1 + w + 1 + n)"]
      slice_length [of input "p + 1 + w + 1" "p + 1 + w + 1 + n"]
    by simp
  ultimately show ?thesis using m by auto
qed

lemma inlineMatches_node:
  "m \<in> set (inlineMatches opn cl editType input) \<Longrightarrow> \<exists>c e. node m = InlineEditNode editType c e"
  by (auto simp: inlineMatches_def Let_def)

lemma targetMatches_node:
  "m \<in> set (targetMatches kws operation input) \<Longrightarrow> \<exists>tag. node m = StructuralTargetNode operation tag"
  by (auto simp: targetMatches_def)

lemma allMatches_fuelNeed:
  assumes "m \<in> set (allMatches input)"
  shows "fuelNeed (node m) \<le> length input + 1"
proof -
  from assms consider
      (inl) opn cl editType where "m \<in> set (inlineMatches opn cl editType input)"
    | (src) kws operation where "m \<in> set (sourceMatches kws operation input)"
    | (tgt) kws operation where "m \<in> set (targetMatches kws operation input)"
    unfolding allMatches_def by auto
  then show ?thesis
  proof cases
    case inl
    from inlineMatches_node [OF this] show ?thesis by auto
  next
    case src
    from sourceMatches_node [OF this] show ?thesis by auto
  next
    case tgt
    from targetMatches_node [OF this] show ?thesis by auto
  qed
qed

lemma parse_fuelNeed:
  assumes "n \<in> set (fst (ParseEditMLToNodes input))"
  shows "fuelNeed n \<le> length input + 1"
proof -
  from assms parsePieces_tiling [of input]
  obtain p where p: "p \<in> set (parsePieces input)" "node p = n" "originalPiece input p"
    by (auto simp: list_all_iff) (metis imageE set_map)
  from p(3) show ?thesis
  proof (unfold originalPiece_def, elim disjE)
    assume "node p = TextNode (slice input (startIndex p) (endIndex p))"
    with p(2) show ?thesis by auto
  next
    assume "p \<in> set (allMatches input)"
    from allMatches_fuelNeed [OF this] p(2) show ?thesis by simp
  qed
qed

lemma ParseEditMLToNodes_no_error: "snd (ParseEditMLToNodes input) = None"
  by (simp add: ParseEditMLToNodes_def Let_def)

lemma preTransform_returns:
  assumes recur: "\<And>nodes. enoughFuel f nodes \<Longrightarrow> recur nodes \<noteq> None"
    and c: "length blockContent < f"
  shows "preTransform recur operation tag blockContent \<noteq> None"
proof -
  obtain sub where sub: "ParseEditMLToNodes blockContent = (sub, None)"
    using ParseEditMLToNodes_no_error [of blockContent]
    by (cases "ParseEditMLToNodes blockContent") simp
  have "enoughFuel f sub"
    unfolding enoughFuel_def list_all_iff
  proof (intro conjI ballI)
    show "0 < f" using c by simp
  next
    fix n assume "n \<in> set sub"
    then have "n \<in> set (fst (ParseEditMLToNodes blockContent))" by (simp add: sub)
    from parse_fuelNeed [OF this] c show "fuelNeed n \<le> f" by simp
  qed
  from recur [OF this] obtain r where "recur sub = Some r" by auto
  then show ?thesis by (cases r) (simp add: preTransform_def sub)
qed

lemma firstPass_returns:
  assumes recur: "\<And>nodes. enoughFuel f nodes \<Longrightarrow> recur nodes \<noteq> None"
  shows "list_all (\<lambda>n. fuelNeed n \<le> Suc f) nodes \<Longrightarrow> firstPass recur nodes ix \<noteq> None"
proof (induction nodes arbitrary: ix)
  case Nil
  then show ?case by simp
next
  case (Cons n nodes)
  then have rest: "\<And>ix. firstPass recur nodes ix \<noteq> None" by simp
  show ?case
  proof (cases n)
    case (TextNode t)
    then show ?thesis using rest by simp
  next
    case (InlineEditNode editType content editorID)
    then show ?thesis using rest by simp
  next
    case (StructuralSourceNode operation tag blockContent)
    with Cons.prems have "length blockContent < f" by simp
    have "preTransform recur operation tag blockContent \<noteq> None"
    proof (rule preTransform_returns [where f = f])
      fix nodes assume "enoughFuel f nodes"
      then show "recur nodes \<noteq> None" by (rule recur)
    next
      show "length blockContent < f" by fact
    qed
    then obtain tb where "preTransform recur operation tag blockContent = Some tb" by auto
    then show ?thesis using rest StructuralSourceNode by simp
  next
    case (StructuralTargetNode operation tag)
    then show ?thesis using rest by (simp add: Let_def)
  qed
qed

lemma TransformToCleanView_returns:
  "enoughFuel fuel nodes \<Longrightarrow> TransformToCleanView fuel nodes \<noteq> None"
proof (induction fuel arbitrary: nodes)
  case 0
  then show ?case by (simp add: enoughFuel_def)
next
  case (Suc fuel)
  from Suc.prems have "list_all (\<lambda>n. fuelNeed n \<le> Suc fuel) nodes"
    by (simp add: enoughFuel_def)
  have "firstPass (TransformToCleanView fuel) nodes emptyIndices \<noteq> None"
  proof (rule firstPass_returns [where f = fuel])
    fix ns assume "enoughFuel fuel ns"
    then show "TransformToCleanView fuel ns \<noteq> None" by (rule Suc.IH)
  next
    show "list_all (\<lambda>n. fuelNeed n \<le> Suc fuel) nodes" by fact
  qed
  then obtain r where "firstPass (TransformToCleanView fuel) nodes emptyIndices = Some r" by auto
  then show ?case by (cases r) simp_all
qed

lemma preTransform_mono:
  assumes "\<And>ns r. recur ns = Some r \<Longrightarrow> recur' ns = Some r"
    and "preTransform recur operation tag blockContent = Some tb"
  shows "preTransform recur' operation tag blockContent = Some tb"
proof -
  obtain sub e where p: "ParseEditMLToNodes blockContent = (sub, e)"
    by (cases "ParseEditMLToNodes blockContent")
  show ?thesis
  proof (cases "e \<noteq> None")
    case True
    with assms(2) p show ?thesis by (simp add: preTransform_def)
  next
    case False
    with assms(2) p obtain r where r: "recur sub = Some r"
      by (cases "recur sub") (auto simp: preTransform_def)
    from assms(1) [OF r] r assms(2) p False show ?thesis
      by (simp add: preTransform_def)
  qed
qed

lemma firstPass_mono:
  assumes m: "\<And>ns r. recur ns = Some r \<Longrightarrow> recur' ns = Some r"
  shows "firstPass recur nodes ix = Some r \<Longrightarrow> firstPass recur' nodes ix = Some r"
proof (induction nodes arbitrary: ix)
  case Nil
  then show ?case by simp
next
  case (Cons n nodes)
  show ?case
  proof (cases n)
    case (TextNode t)
    with Cons show ?thesis by simp
  next
    case (InlineEditNode editType content editorID)
    with Cons show ?thesis by simp
  next
    case src: (StructuralSourceNode operation tag blockContent)
    show ?thesis
    proof (cases "allSources ix tag")
      case (Some d)
      with Cons.prems src show ?thesis by simp
    next
      case None
      with Cons.prems src obtain tb where tb: "preTransform recur operation tag blockContent = Some tb"
        by (cases "preTransform recur operation tag blockContent") auto
      have tb': "preTransform recur' operation tag blockContent = Some tb"
      proof (rule preTransform_mono [where recur = recur])
        fix ns r assume "recur ns = Some r" then show "recur' ns = Some r" by (rule m)
      next
        show "preTransform recur operation tag blockContent = Some tb" by (rule tb)
      qed
      from Cons.prems src None tb tb' Cons.IH show ?thesis by simp
    qed
  next
    case tgt: (StructuralTargetNode operation tag)
    with Cons.prems Cons.IH show ?thesis by (simp add: Let_def split: if_splits)
  qed
qed

lemma TransformToCleanView_fuel_Suc:
  "TransformToCleanView fuel nodes = Some r \<Longrightarrow> TransformToCleanView (Suc fuel) nodes = Some r"
proof (induction fuel arbitrary: nodes r)
  case 0
  then show ?case by simp
next
  case (Suc fuel)
  from Suc.prems obtain q where q: "firstPass (TransformToCleanView fuel) nodes emptyIndices = Some q"
    by (cases "firstPass (TransformToCleanView fuel) nodes emptyIndices") auto
  have "firstPass (TransformToCleanView (Suc fuel)) nodes emptyIndices = Some q"
  proof (rule firstPass_mono [where recur = "TransformToCleanView fuel"])
    fix ns r assume "TransformToCleanView fuel ns = Some r"
    then show "TransformToCleanView (Suc fuel) ns = Some r" by (rule Suc.IH)
  next
    show "firstPass (TransformToCleanView fuel) nodes emptyIndices = Some q" by (rule q)
  qed
  with q Suc.prems show ?case by simp
qed

lemma TransformToCleanView_fuel_mono:
  "TransformToCleanView fuel nodes = Some r \<Longrightarrow> fuel \<le> fuel' \<Longrightarrow>
   TransformToCleanView fuel' nodes = Some r"
proof (induction fuel')
  case 0
  then show ?case by simp
next
  case (Suc fuel')
  show ?case
  proof (cases "fuel = Suc fuel'")
    case True
    with Suc.prems show ?thesis by simp
  next
    case False
    with Suc.prems have "fuel \<le> fuel'" by simp
    from TransformToCleanView_fuel_Suc [OF Suc.IH [OF Suc.prems(1) this]] show ?thesis .
  qed
qed

text \<open>
  The fuel is a device of the model only: more fuel never changes a result, so the value
  the transformer returns does not depend on the fuel that was enough for it.
\<close>

lemma TransformToCleanView_fuel_independent:
  "TransformToCleanView fuel nodes = Some r \<Longrightarrow> TransformToCleanView fuel' nodes = Some r' \<Longrightarrow> r = r'"
proof -
  assume a: "TransformToCleanView fuel nodes = Some r" and b: "TransformToCleanView fuel' nodes = Some r'"
  from TransformToCleanView_fuel_mono [OF a, of "max fuel fuel'"]
    TransformToCleanView_fuel_mono [OF b, of "max fuel fuel'"]
  show "r = r'" by simp
qed

section \<open>Document-level errors\<close>

lemma enoughFuel_exists: "enoughFuel (Suc (sum_list (map fuelNeed nodes))) nodes"
proof -
  have "fuelNeed n \<le> Suc (sum_list (map fuelNeed nodes))" if "n \<in> set nodes" for n
    using member_le_sum_list [of "fuelNeed n" "map fuelNeed nodes"] that by simp
  then show ?thesis by (simp add: enoughFuel_def list_all_iff)
qed

lemma renderLoop_concat: "renderLoop ix nodes sb = sb @ concat (map (renderNode ix) nodes)"
  by (induction nodes arbitrary: sb) simp_all

lemma firstPass_conflict:
  assumes "firstPass recur nodes ix = Some r"
    and "\<forall>t. moveTargetCounts ix t = 0 \<or> moveTargetCounts ix t = 1"
  shows "isl r = (\<not> distinct (sourceTags nodes) \<or> (\<exists>t\<in>set (sourceTags nodes). allSources ix t \<noteq> None)
                 \<or> \<not> distinct (moveTargetTags nodes)
                 \<or> (\<exists>t\<in>set (moveTargetTags nodes). moveTargetCounts ix t = 1))"
  using assms
proof (induction nodes arbitrary: ix)
  case Nil
  then show ?case by auto
next
  case (Cons n nodes)
  show ?case
  proof (cases n)
    case (TextNode t)
    with Cons.prems Cons.IH [of ix] show ?thesis by simp
  next
    case (InlineEditNode editType content editorID)
    with Cons.prems Cons.IH [of ix] show ?thesis by simp
  next
    case src: (StructuralSourceNode operation tag blockContent)
    show ?thesis
    proof (cases "allSources ix tag")
      case (Some d)
      with Cons.prems src show ?thesis by auto
    next
      case None
      with Cons.prems src obtain tb where tb: "preTransform recur operation tag blockContent = Some tb"
        by (cases "preTransform recur operation tag blockContent") auto
      define ix1 where "ix1 = ix\<lparr>allSources := (allSources ix)(tag \<mapsto>
                        \<lparr>srcNode = StructuralSourceNode operation tag blockContent,
                         transformedBlock = tb, isUsedAsMove = False\<rparr>)\<rparr>"
      have r: "firstPass recur nodes ix1 = Some r"
        using Cons.prems(1) src None tb by (simp add: ix1_def)
      have c: "\<forall>t. moveTargetCounts ix1 t = 0 \<or> moveTargetCounts ix1 t = 1"
        using Cons.prems(2) by (simp add: ix1_def)
      have s: "allSources ix1 t \<noteq> None \<longleftrightarrow> t = tag \<or> allSources ix t \<noteq> None" for t
        by (simp add: ix1_def)
      have m: "moveTargetCounts ix1 = moveTargetCounts ix" by (simp add: ix1_def)
      from Cons.IH [OF r c] show ?thesis
        unfolding s m using None src by auto
    qed
  next
    case tgt: (StructuralTargetNode operation tag)
    define ix1 where "ix1 = ix\<lparr>allTargets := (allTargets ix)(tag \<mapsto>
                  targetsAt ix tag @ [StructuralTargetNode operation tag])\<rparr>"
    have s1: "allSources ix1 = allSources ix" and m1: "moveTargetCounts ix1 = moveTargetCounts ix"
      by (simp_all add: ix1_def)
    show ?thesis
    proof (cases "operation = OperationMove")
      case False
      then have r: "firstPass recur nodes ix1 = Some r"
        using Cons.prems(1) tgt by (simp add: ix1_def Let_def)
      have c: "\<forall>t. moveTargetCounts ix1 t = 0 \<or> moveTargetCounts ix1 t = 1"
        using Cons.prems(2) by (simp add: m1)
      from Cons.IH [OF r c] show ?thesis
        unfolding s1 m1 using False tgt by simp
    next
      case True
      define ix2 where "ix2 = ix1\<lparr>moveTargetCounts :=
                            (moveTargetCounts ix1)(tag := moveTargetCounts ix1 tag + 1)\<rparr>"
      have s2: "allSources ix2 = allSources ix" by (simp add: ix2_def s1)
      have m2: "moveTargetCounts ix2 t = (if t = tag then moveTargetCounts ix tag + 1 else moveTargetCounts ix t)" for t
        by (simp add: ix2_def m1)
      have step: "firstPass recur (n # nodes) ix =
                    (if 1 < moveTargetCounts ix2 tag then Some (Inl (MultipleMoveTargets tag))
                     else firstPass recur nodes ix2)"
        using True tgt by (simp add: ix1_def ix2_def Let_def)
      from Cons.prems(2) consider (zero) "moveTargetCounts ix tag = 0" | (one) "moveTargetCounts ix tag = 1"
        by auto
      then show ?thesis
      proof cases
        case one
        then have "r = Inl (MultipleMoveTargets tag)" using step Cons.prems(1) by (simp add: m2)
        then show ?thesis using one True tgt by auto
      next
        case zero
        then have r: "firstPass recur nodes ix2 = Some r" using step Cons.prems(1) by (simp add: m2)
        have c: "\<forall>t. moveTargetCounts ix2 t = 0 \<or> moveTargetCounts ix2 t = 1"
          using Cons.prems(2) zero by (simp add: m2)
        have e: "moveTargetCounts ix2 t = 1 \<longleftrightarrow> t = tag \<or> moveTargetCounts ix t = 1" for t
          using zero by (simp add: m2)
        from Cons.IH [OF r c] show ?thesis
          unfolding s2 e using zero True tgt by auto
      qed
    qed
  qed
qed

lemma TransformToCleanView_conflict:
  assumes "TransformToCleanView fuel nodes = Some (out, err)"
  shows "(err \<noteq> None) = (\<not> distinct (sourceTags nodes) \<or> \<not> distinct (moveTargetTags nodes))"
    and "err \<noteq> None \<Longrightarrow> out = []"
proof -
  from assms obtain f where f: "fuel = Suc f" by (cases fuel) auto
  from assms f obtain r where r: "firstPass (TransformToCleanView f) nodes emptyIndices = Some r"
    by (cases "firstPass (TransformToCleanView f) nodes emptyIndices") auto
  have "isl r = (\<not> distinct (sourceTags nodes) \<or> \<not> distinct (moveTargetTags nodes))"
    using firstPass_conflict [OF r] by (simp add: emptyIndices_def)
  moreover have "isl r = (err \<noteq> None)" and "err \<noteq> None \<Longrightarrow> out = []"
    using assms f r by (cases r; auto)+
  ultimately show "(err \<noteq> None) = (\<not> distinct (sourceTags nodes) \<or> \<not> distinct (moveTargetTags nodes))"
    and "err \<noteq> None \<Longrightarrow> out = []" by simp_all
qed

lemma TransformCleanView_Some:
  assumes "TransformCleanView fuel nodes = Some (outputText, issues)"
  shows "\<exists>err. TransformToCleanView fuel nodes = Some (outputText, err) \<and>
               (issues \<noteq> []) = (err \<noteq> None) \<and>
               list_ex (\<lambda>i. Severity i = SeverityError) issues = (err \<noteq> None)"
proof -
  from assms obtain out err where t: "TransformToCleanView fuel nodes = Some (out, err)"
    by (cases "TransformToCleanView fuel nodes") (auto simp: TransformCleanView_def)
  with assms show ?thesis by (cases err) (auto simp: TransformCleanView_def)
qed

lemma TransformCleanView_returns: "\<exists>fuel r. TransformCleanView fuel nodes = Some r"
proof -
  from TransformToCleanView_returns [OF enoughFuel_exists, of nodes]
  obtain out err where "TransformToCleanView (Suc (sum_list (map fuelNeed nodes))) nodes = Some (out, err)"
    by auto
  then have "\<exists>r. TransformCleanView (Suc (sum_list (map fuelNeed nodes))) nodes = Some r"
    by (cases err) (simp_all add: TransformCleanView_def)
  then show ?thesis by blast
qed

lemma TransformToCleanView_output:
  assumes "TransformToCleanView fuel nodes = Some (out, None)"
  shows "\<exists>ix. firstPass (TransformToCleanView (fuel - 1)) nodes emptyIndices = Some (Inr ix) \<and>
              out = concat (map (renderNode (markMoves ix)) nodes)"
proof -
  from assms obtain f where f: "fuel = Suc f" by (cases fuel) auto
  from assms f obtain r where r: "firstPass (TransformToCleanView f) nodes emptyIndices = Some r"
    by (cases "firstPass (TransformToCleanView f) nodes emptyIndices") auto
  with assms f show ?thesis by (cases r) (auto simp: renderLoop_concat)
qed

text \<open>
  C10: for every node sequence the call returns, and whenever the issues it returns
  hold one of severity \<open>error\<close>, the output text is the empty string.
\<close>

theorem C10_error_issue_empty_output:
  "(\<exists>fuel r. TransformCleanView fuel nodes = Some r) \<and>
   (\<forall>fuel outputText issues. TransformCleanView fuel nodes = Some (outputText, issues) \<longrightarrow>
      list_ex (\<lambda>i. Severity i = SeverityError) issues \<longrightarrow> outputText = [])"
proof (intro conjI allI impI)
  show "\<exists>fuel r. TransformCleanView fuel nodes = Some r" by (rule TransformCleanView_returns)
next
  fix fuel outputText issues
  assume a: "TransformCleanView fuel nodes = Some (outputText, issues)"
    and e: "list_ex (\<lambda>i. Severity i = SeverityError) issues"
  from TransformCleanView_Some [OF a] e obtain err
    where t: "TransformToCleanView fuel nodes = Some (outputText, err)" and "err \<noteq> None" by auto
  from TransformToCleanView_conflict(2) [OF this] show "outputText = []" .
qed

theorem C10_error_issue_empty_output_witness:
  "TransformCleanView 2
     [StructuralSourceNode OperationMove ''T'' ''a'', StructuralSourceNode OperationCopy ''T'' ''b''] =
   Some ([], [\<lparr>Message = ''Transformation error: structural conflict: duplicate source tag '' @
                          [CHR 0x22] @ ''T'' @ [CHR 0x22],
               Line = 0, Column = 0, Severity = SeverityError\<rparr>])"
proof -
  have "map_option snd (TransformCleanView 2
     [StructuralSourceNode OperationMove ''T'' ''a'', StructuralSourceNode OperationCopy ''T'' ''b'']) =
   Some [\<lparr>Message = ''Transformation error: structural conflict: duplicate source tag '' @
                          [CHR 0x22] @ ''T'' @ [CHR 0x22],
               Line = 0, Column = 0, Severity = SeverityError\<rparr>]"
    by code_simp
  then obtain out where "TransformCleanView 2
     [StructuralSourceNode OperationMove ''T'' ''a'', StructuralSourceNode OperationCopy ''T'' ''b''] =
   Some (out, [\<lparr>Message = ''Transformation error: structural conflict: duplicate source tag '' @
                          [CHR 0x22] @ ''T'' @ [CHR 0x22],
               Line = 0, Column = 0, Severity = SeverityError\<rparr>])"
    by auto
  then show ?thesis
    using C10_error_issue_empty_output
      [of "[StructuralSourceNode OperationMove ''T'' ''a'', StructuralSourceNode OperationCopy ''T'' ''b'']"]
    by fastforce
qed

lemma parse_enoughFuel: "length input < fuel \<Longrightarrow> enoughFuel fuel (fst (ParseEditMLToNodes input))"
  unfolding enoughFuel_def list_all_iff
proof (intro conjI ballI)
  assume "length input < fuel"
  then show "0 < fuel" by simp
next
  fix n assume "length input < fuel" and "n \<in> set (fst (ParseEditMLToNodes input))"
  with parse_fuelNeed [of n input] show "fuelNeed n \<le> fuel" by simp
qed

text \<open>
  C8, amended: the recursion of the transformer into the block content of a source
  always ends. The block content of a source that the parser returns is strictly shorter
  than the parsed text, so the transformer returns on the parse of every input within
  as many nested calls as the input has bytes, plus one; and it returns on every node
  sequence that is handed to it, within the calls counted by \<open>fuelNeed\<close>.
\<close>

theorem C8_recursion_is_bounded:
  "(length input < fuel \<longrightarrow> (\<exists>r. TransformToCleanView fuel (fst (ParseEditMLToNodes input)) = Some r)) \<and>
   (enoughFuel fuel nodes \<longrightarrow> (\<exists>r. TransformToCleanView fuel nodes = Some r)) \<and>
   enoughFuel (Suc (sum_list (map fuelNeed nodes))) nodes"
  using TransformToCleanView_returns [OF parse_enoughFuel, of input fuel]
    TransformToCleanView_returns [of fuel nodes] enoughFuel_exists [of nodes]
  by auto

theorem C8_recursion_is_bounded_witness:
  "length ''{move~a{copy~b~U}c~T1}{move:T1}'' < 33 \<and>
   (\<exists>r. TransformToCleanView 33 (fst (ParseEditMLToNodes ''{move~a{copy~b~U}c~T1}{move:T1}'')) = Some r) \<and>
   TransformToCleanView 2 (fst (ParseEditMLToNodes ''{move~a{copy~b~U}c~T1}{move:T1}'')) =
     Some (''{move~a{copy~b~U}c~T1}{move:T1}'', None)"
proof -
  have "TransformToCleanView 2 (fst (ParseEditMLToNodes ''{move~a{copy~b~U}c~T1}{move:T1}'')) =
     Some (''{move~a{copy~b~U}c~T1}{move:T1}'', None)"
    by code_simp
  then show ?thesis
    using C8_recursion_is_bounded [of "''{move~a{copy~b~U}c~T1}{move:T1}''" 33]
    by simp
qed

text \<open>
  C8, as stated, fails: there is no input text on whose parse the transformer does not
  return.
\<close>

theorem C8_never_returns_counterexample:
  "\<not> (\<exists>input. \<forall>fuel. TransformToCleanView fuel (fst (ParseEditMLToNodes input)) = None)"
proof
  assume "\<exists>input. \<forall>fuel. TransformToCleanView fuel (fst (ParseEditMLToNodes input)) = None"
  then obtain input where
    "TransformToCleanView (Suc (length input)) (fst (ParseEditMLToNodes input)) = None" by blast
  moreover have "length input < Suc (length input)" by simp
  ultimately show False using TransformToCleanView_returns [OF parse_enoughFuel] by blast
qed

section \<open>The pre-scan and what each node writes\<close>

lemma firstPass_step_source:
  assumes "firstPass recur (StructuralSourceNode operation tag blockContent # nodes) ix = Some (Inr ix')"
  shows "allSources ix tag = None \<and>
         (\<exists>tb. preTransform recur operation tag blockContent = Some tb \<and>
               firstPass recur nodes
                 (ix\<lparr>allSources := (allSources ix)(tag \<mapsto>
                        \<lparr>srcNode = StructuralSourceNode operation tag blockContent,
                         transformedBlock = tb, isUsedAsMove = False\<rparr>)\<rparr>) = Some (Inr ix'))"
proof -
  from assms have n: "allSources ix tag = None" by (cases "allSources ix tag") auto
  with assms obtain tb where "preTransform recur operation tag blockContent = Some tb"
    by (cases "preTransform recur operation tag blockContent") auto
  with assms n show ?thesis by simp
qed

lemma firstPass_step_target:
  assumes "firstPass recur (StructuralTargetNode operation tag # nodes) ix = Some (Inr ix')"
  shows "firstPass recur nodes
           (ix\<lparr>allTargets := (allTargets ix)(tag \<mapsto>
                   targetsAt ix tag @ [StructuralTargetNode operation tag]),
               moveTargetCounts := (moveTargetCounts ix)(tag := moveTargetCounts ix tag +
                   (if operation = OperationMove then 1 else 0))\<rparr>) = Some (Inr ix')"
proof (cases "operation = OperationMove")
  case True
  with assms show ?thesis by (simp add: Let_def split: if_splits)
next
  case False
  then have "(moveTargetCounts ix)(tag := moveTargetCounts ix tag + (if operation = OperationMove then 1 else 0))
             = moveTargetCounts ix" by auto
  with assms False show ?thesis by (simp add: Let_def)
qed

lemma firstPass_sources_kept:
  "firstPass recur nodes ix = Some (Inr ix') \<Longrightarrow> allSources ix tag = Some d \<Longrightarrow>
   allSources ix' tag = Some d"
proof (induction nodes arbitrary: ix)
  case Nil
  then show ?case by simp
next
  case (Cons n nodes)
  show ?case
  proof (cases n)
    case (TextNode t)
    with Cons show ?thesis by simp
  next
    case (InlineEditNode editType content editorID)
    with Cons show ?thesis by simp
  next
    case (StructuralSourceNode operation t blockContent)
    from firstPass_step_source [OF Cons.prems(1) [unfolded StructuralSourceNode]]
    obtain tb where none: "allSources ix t = None"
      and r: "firstPass recur nodes
                 (ix\<lparr>allSources := (allSources ix)(t \<mapsto>
                        \<lparr>srcNode = StructuralSourceNode operation t blockContent,
                         transformedBlock = tb, isUsedAsMove = False\<rparr>)\<rparr>) = Some (Inr ix')"
      by auto
    from none Cons.prems(2) have "t \<noteq> tag" by auto
    with Cons.IH [OF r] Cons.prems(2) show ?thesis by simp
  next
    case (StructuralTargetNode operation t)
    from firstPass_step_target [OF Cons.prems(1) [unfolded StructuralTargetNode]]
      Cons.IH Cons.prems(2) show ?thesis by simp
  qed
qed

lemma firstPass_source_entry:
  "firstPass recur nodes ix = Some (Inr ix') \<Longrightarrow>
   StructuralSourceNode operation tag blockContent \<in> set nodes \<Longrightarrow>
   \<exists>tb. preTransform recur operation tag blockContent = Some tb \<and>
        allSources ix' tag = Some \<lparr>srcNode = StructuralSourceNode operation tag blockContent,
                                   transformedBlock = tb, isUsedAsMove = False\<rparr>"
proof (induction nodes arbitrary: ix)
  case Nil
  then show ?case by simp
next
  case (Cons n nodes)
  show ?case
  proof (cases n)
    case (TextNode t)
    with Cons show ?thesis by simp
  next
    case (InlineEditNode editType content editorID)
    with Cons show ?thesis by simp
  next
    case src: (StructuralSourceNode op t c)
    from firstPass_step_source [OF Cons.prems(1) [unfolded src]]
    obtain tb where tb: "preTransform recur op t c = Some tb"
      and r: "firstPass recur nodes
                 (ix\<lparr>allSources := (allSources ix)(t \<mapsto>
                        \<lparr>srcNode = StructuralSourceNode op t c,
                         transformedBlock = tb, isUsedAsMove = False\<rparr>)\<rparr>) = Some (Inr ix')"
      by auto
    show ?thesis
    proof (cases "n = StructuralSourceNode operation tag blockContent")
      case True
      with src have eq: "op = operation" "t = tag" "c = blockContent" by simp_all
      from firstPass_sources_kept [OF r, of tag] eq tb show ?thesis by simp
    next
      case False
      with Cons.prems(2) have "StructuralSourceNode operation tag blockContent \<in> set nodes" by simp
      from Cons.IH [OF r this] show ?thesis .
    qed
  next
    case tgt: (StructuralTargetNode op t)
    with Cons.prems(2) have "StructuralSourceNode operation tag blockContent \<in> set nodes" by simp
    from Cons.IH [OF firstPass_step_target [OF Cons.prems(1) [unfolded tgt]] this]
    show ?thesis .
  qed
qed

lemma firstPass_targets:
  "firstPass recur nodes ix = Some (Inr ix') \<Longrightarrow>
   targetsAt ix' tag = targetsAt ix tag @ targetsOf tag nodes \<and>
   (allTargets ix' tag = None) = (allTargets ix tag = None \<and> targetsOf tag nodes = []) \<and>
   moveTargetCounts ix' tag = moveTargetCounts ix tag + int (count_list (moveTargetTags nodes) tag)"
proof (induction nodes arbitrary: ix)
  case Nil
  then show ?case by simp
next
  case (Cons n nodes)
  show ?case
  proof (cases n)
    case (TextNode t)
    with Cons show ?thesis by simp
  next
    case (InlineEditNode editType content editorID)
    with Cons show ?thesis by simp
  next
    case src: (StructuralSourceNode op t c)
    from firstPass_step_source [OF Cons.prems(1) [unfolded src]]
    obtain tb where r: "firstPass recur nodes
                 (ix\<lparr>allSources := (allSources ix)(t \<mapsto>
                        \<lparr>srcNode = StructuralSourceNode op t c,
                         transformedBlock = tb, isUsedAsMove = False\<rparr>)\<rparr>) = Some (Inr ix')"
      by auto
    from Cons.IH [OF r] src show ?thesis by (simp add: targetsAt_def)
  next
    case tgt: (StructuralTargetNode op t)
    from Cons.IH [OF firstPass_step_target [OF Cons.prems(1) [unfolded tgt]]] tgt
    show ?thesis by (auto simp: targetsAt_def split: option.splits)
  qed
qed

lemma prescan_succeeds:
  assumes fuel: "enoughFuel (Suc fuel) nodes"
    and noconflict: "distinct (sourceTags nodes)" "distinct (moveTargetTags nodes)"
  shows "\<exists>ix. firstPass (TransformToCleanView fuel) nodes emptyIndices = Some (Inr ix) \<and>
              TransformToCleanView (Suc fuel) nodes =
                Some (concat (map (renderNode (markMoves ix)) nodes), None)"
proof -
  from TransformToCleanView_returns [OF fuel]
  obtain r where r: "firstPass (TransformToCleanView fuel) nodes emptyIndices = Some r"
    by (cases "firstPass (TransformToCleanView fuel) nodes emptyIndices") auto
  from firstPass_conflict [OF r] noconflict have "\<not> isl r" by (simp add: emptyIndices_def)
  then obtain ix where "r = Inr ix" by (cases r) auto
  with r show ?thesis by (simp add: renderLoop_concat)
qed

lemma targetsOf_mem:
  "StructuralTargetNode operation tag \<in> set nodes \<Longrightarrow>
   StructuralTargetNode operation tag \<in> set (targetsOf tag nodes)"
proof (induction nodes)
  case Nil
  then show ?case by simp
next
  case (Cons n nodes)
  then show ?case by (cases n) auto
qed

lemma moveTargetTags_mem:
  "tag \<in> set (moveTargetTags nodes) \<Longrightarrow> StructuralTargetNode OperationMove tag \<in> set nodes"
proof (induction nodes)
  case Nil
  then show ?case by simp
next
  case (Cons n nodes)
  then show ?case by (cases n) (auto split: if_splits)
qed

lemma prescan_targets:
  assumes "firstPass recur nodes emptyIndices = Some (Inr ix)"
    and "StructuralTargetNode operation tag \<in> set nodes"
  shows "allTargets ix tag = Some (targetsOf tag nodes) \<and>
         StructuralTargetNode operation tag \<in> set (targetsOf tag nodes) \<and>
         moveTargetCounts ix tag = int (count_list (moveTargetTags nodes) tag)"
proof -
  from targetsOf_mem [OF assms(2)] have m: "StructuralTargetNode operation tag \<in> set (targetsOf tag nodes)" .
  then have ne: "targetsOf tag nodes \<noteq> []" by auto
  from firstPass_targets [OF assms(1), of tag] ne
  have "targetsAt ix tag = targetsOf tag nodes" "allTargets ix tag \<noteq> None"
    "moveTargetCounts ix tag = int (count_list (moveTargetTags nodes) tag)"
    by (simp_all add: emptyIndices_def targetsAt_def)
  with m show ?thesis by (auto simp: targetsAt_def)
qed

lemma Contains_infix: "Contains (xs @ p @ ys) p"
proof (induction xs)
  case Nil
  have "HasPrefix (p @ ys) p" by (simp add: HasPrefix_def)
  then show ?case by (cases "p @ ys") simp_all
next
  case (Cons x xs)
  then show ?case by simp
qed

lemma count_list_distinct: "distinct xs \<Longrightarrow> count_list xs x = (if x \<in> set xs then 1 else 0)"
  by (induction xs) auto

lemma Contains_marker:
  "Contains (''{'' @ operation @ ''~'' @ blockContent @ '' (ERROR_TRANSFORMING_CONTENT)~'' @ tag @ ''}'')
     ''(ERROR_''"
  using Contains_infix [of "''{'' @ operation @ ''~'' @ blockContent @ '' ''" "''(ERROR_''"
      "''TRANSFORMING_CONTENT)~'' @ tag @ ''}''"]
  by simp

lemma preTransform_result:
  assumes "preTransform (TransformToCleanView fuel) operation tag blockContent = Some tb"
  shows "(\<not> blockConflict blockContent \<longrightarrow>
            TransformToCleanView fuel (fst (ParseEditMLToNodes blockContent)) = Some (tb, None)) \<and>
         (blockConflict blockContent \<longrightarrow>
            tb = ''{'' @ operation @ ''~'' @ blockContent @ '' (ERROR_TRANSFORMING_CONTENT)~'' @ tag @ ''}'')"
proof -
  obtain sub where p: "ParseEditMLToNodes blockContent = (sub, None)"
    using ParseEditMLToNodes_no_error [of blockContent]
    by (cases "ParseEditMLToNodes blockContent") simp
  from assms p obtain blockStr err where t: "TransformToCleanView fuel sub = Some (blockStr, err)"
    by (cases "TransformToCleanView fuel sub") (auto simp: preTransform_def)
  from TransformToCleanView_conflict(1) [OF t] p
  have c: "(err \<noteq> None) = blockConflict blockContent" by (simp add: blockConflict_def)
  show ?thesis
  proof (cases err)
    case None
    with assms p t c show ?thesis by (simp add: preTransform_def)
  next
    case (Some e)
    with assms p t c show ?thesis by (simp add: preTransform_def)
  qed
qed

lemma sourceTags_mem:
  "StructuralSourceNode operation tag blockContent \<in> set nodes \<Longrightarrow> tag \<in> set (sourceTags nodes)"
proof (induction nodes)
  case Nil
  then show ?case by simp
next
  case (Cons n nodes)
  then show ?case by (cases n) auto
qed

lemma targetsOf_set:
  "t \<in> set (targetsOf tag nodes) \<longleftrightarrow> (\<exists>operation. t = StructuralTargetNode operation tag) \<and> t \<in> set nodes"
proof (induction nodes)
  case Nil
  then show ?case by simp
next
  case (Cons n nodes)
  then show ?case by (cases n) auto
qed

lemma moveTargetTags_set:
  "tag \<in> set (moveTargetTags nodes) \<longleftrightarrow> StructuralTargetNode OperationMove tag \<in> set nodes"
proof (induction nodes)
  case Nil
  then show ?case by simp
next
  case (Cons n nodes)
  then show ?case by (cases n) auto
qed

lemma firstPass_sources_dom:
  "firstPass recur nodes ix = Some (Inr ix') \<Longrightarrow>
   (allSources ix' tag = None) = (allSources ix tag = None \<and> tag \<notin> set (sourceTags nodes))"
proof (induction nodes arbitrary: ix)
  case Nil
  then show ?case by simp
next
  case (Cons n nodes)
  show ?case
  proof (cases n)
    case (TextNode t)
    with Cons show ?thesis by simp
  next
    case (InlineEditNode editType content editorID)
    with Cons show ?thesis by simp
  next
    case src: (StructuralSourceNode op t c)
    from firstPass_step_source [OF Cons.prems(1) [unfolded src]]
    obtain tb where r: "firstPass recur nodes
                 (ix\<lparr>allSources := (allSources ix)(t \<mapsto>
                        \<lparr>srcNode = StructuralSourceNode op t c,
                         transformedBlock = tb, isUsedAsMove = False\<rparr>)\<rparr>) = Some (Inr ix')"
      by auto
    from Cons.IH [OF r] src show ?thesis by auto
  next
    case tgt: (StructuralTargetNode op t)
    from Cons.IH [OF firstPass_step_target [OF Cons.prems(1) [unfolded tgt]]] tgt
    show ?thesis by simp
  qed
qed

lemma prescan_unresolved:
  assumes "firstPass recur nodes emptyIndices = Some (Inr ix)" and "tag \<notin> set (sourceTags nodes)"
  shows "allSources (markMoves ix) tag = None"
  using firstPass_sources_dom [OF assms(1), of tag] assms(2)
  by (simp add: markMoves_def emptyIndices_def)

lemma prescan_targets_of:
  assumes "firstPass recur nodes emptyIndices = Some (Inr ix)"
  shows "targetsAt ix tag = targetsOf tag nodes"
    and "(allTargets ix tag = None) = (targetsOf tag nodes = [])"
    and "moveTargetCounts ix tag = int (count_list (moveTargetTags nodes) tag)"
  using firstPass_targets [OF assms, of tag] by (simp_all add: emptyIndices_def targetsAt_def)

lemma prescan_has_target:
  assumes fp: "firstPass recur nodes emptyIndices = Some (Inr ix)"
  shows "(case allTargets (markMoves ix) tag of
            None \<Rightarrow> False
          | Some ts \<Rightarrow> list_ex (\<lambda>t. Operation t = operation) ts) =
         (StructuralTargetNode operation tag \<in> set nodes)"
proof -
  have e: "list_ex (\<lambda>t. Operation t = operation) (targetsOf tag nodes) =
           (StructuralTargetNode operation tag \<in> set nodes)"
    unfolding list_ex_iff using targetsOf_set [of _ tag nodes] by force
  show ?thesis
  proof (cases "allTargets ix tag")
    case None
    with prescan_targets_of(2) [OF fp, of tag] e show ?thesis by (simp add: markMoves_def)
  next
    case (Some ts)
    with prescan_targets_of(1) [OF fp, of tag] have "ts = targetsOf tag nodes"
      by (simp add: targetsAt_def)
    with Some e show ?thesis by (simp add: markMoves_def)
  qed
qed

lemma prescan_marked:
  assumes fp: "firstPass recur nodes emptyIndices = Some (Inr ix)"
    and src: "StructuralSourceNode operation tag blockContent \<in> set nodes"
    and dm: "distinct (moveTargetTags nodes)"
  shows "\<exists>tb. preTransform recur operation tag blockContent = Some tb \<and>
              allSources (markMoves ix) tag =
                Some \<lparr>srcNode = StructuralSourceNode operation tag blockContent,
                      transformedBlock = tb,
                      isUsedAsMove = (operation = OperationMove \<and> tag \<in> set (moveTargetTags nodes))\<rparr>"
proof -
  from firstPass_source_entry [OF fp src] obtain tb
    where tb: "preTransform recur operation tag blockContent = Some tb"
      and sd: "allSources ix tag = Some \<lparr>srcNode = StructuralSourceNode operation tag blockContent,
                                          transformedBlock = tb, isUsedAsMove = False\<rparr>"
    by auto
  have cnt: "moveTargetCounts ix tag = (if tag \<in> set (moveTargetTags nodes) then 1 else 0)"
    using prescan_targets_of(3) [OF fp, of tag] dm
    by (simp add: count_list_distinct)
  have used: "isUsedAsMove (markUsed ix tag \<lparr>srcNode = StructuralSourceNode operation tag blockContent,
                                          transformedBlock = tb, isUsedAsMove = False\<rparr>) =
              (operation = OperationMove \<and> tag \<in> set (moveTargetTags nodes))"
  proof (cases "tag \<in> set (moveTargetTags nodes)")
    case False
    with cnt show ?thesis by (simp add: markUsed_def Let_def split: option.splits)
  next
    case True
    then have m: "StructuralTargetNode OperationMove tag \<in> set nodes" by (simp add: moveTargetTags_set)
    from prescan_targets [OF fp m]
    have ts: "allTargets ix tag = Some (targetsOf tag nodes)"
      and mem: "StructuralTargetNode OperationMove tag \<in> set (targetsOf tag nodes)" by simp_all
    from mem have ex: "list_ex (\<lambda>t. Operation t = OperationMove) (targetsOf tag nodes)"
      and len: "0 < length (targetsOf tag nodes)"
      unfolding list_ex_iff by (force, cases "targetsOf tag nodes", auto)
    from True cnt ts ex len show ?thesis by (simp add: markUsed_def)
  qed
  have rest: "srcNode (markUsed ix tag d) = srcNode d" "transformedBlock (markUsed ix tag d) = transformedBlock d" for d
    by (simp_all add: markUsed_def Let_def split: option.splits)
  have "markUsed ix tag \<lparr>srcNode = StructuralSourceNode operation tag blockContent,
                                          transformedBlock = tb, isUsedAsMove = False\<rparr> =
        \<lparr>srcNode = StructuralSourceNode operation tag blockContent, transformedBlock = tb,
         isUsedAsMove = (operation = OperationMove \<and> tag \<in> set (moveTargetTags nodes))\<rparr>"
    using used rest by (intro sourceDetail.equality) simp_all
  with tb sd show ?thesis by (simp add: markMoves_def)
qed

lemma render_unresolved_target:
  assumes "firstPass recur nodes emptyIndices = Some (Inr ix)" and "tag \<notin> set (sourceTags nodes)"
  shows "renderNode (markMoves ix) (StructuralTargetNode operation tag) =
           ''{'' @ operation @ '':'' @ tag @ ''}''"
  using prescan_unresolved [OF assms] by (simp add: renderNode_def literalTarget_def)

lemma render_mismatch:
  assumes fp: "firstPass recur nodes emptyIndices = Some (Inr ix)"
    and dm: "distinct (moveTargetTags nodes)"
    and src: "StructuralSourceNode sop tag blockContent \<in> set nodes"
    and ne: "operation \<noteq> sop"
  shows "renderNode (markMoves ix) (StructuralTargetNode operation tag) =
           ''{'' @ operation @ '':'' @ tag @ '' (ERROR_OPERATION_MISMATCH_WITH_SOURCE '' @ sop @ '')}''"
proof -
  from prescan_marked [OF fp src dm] obtain tb where
    "allSources (markMoves ix) tag =
       Some \<lparr>srcNode = StructuralSourceNode sop tag blockContent, transformedBlock = tb,
             isUsedAsMove = (sop = OperationMove \<and> tag \<in> set (moveTargetTags nodes))\<rparr>"
    by blast
  with ne show ?thesis by (simp add: renderNode_def)
qed

lemma render_source:
  assumes fp: "firstPass (TransformToCleanView fuel) nodes emptyIndices = Some (Inr ix)"
    and dm: "distinct (moveTargetTags nodes)"
    and src: "StructuralSourceNode operation tag blockContent \<in> set nodes"
  shows "\<exists>tb. preTransform (TransformToCleanView fuel) operation tag blockContent = Some tb \<and>
           (\<not> blockConflict blockContent \<longrightarrow>
              TransformToCleanView fuel (fst (ParseEditMLToNodes blockContent)) = Some (tb, None)) \<and>
           (blockConflict blockContent \<longrightarrow>
              tb = ''{'' @ operation @ ''~'' @ blockContent @ '' (ERROR_TRANSFORMING_CONTENT)~'' @ tag @ ''}'' \<and>
              renderNode (markMoves ix) (StructuralTargetNode operation tag) = tb \<and>
              (operation = OperationCopy \<longrightarrow>
                 renderNode (markMoves ix) (StructuralSourceNode operation tag blockContent) = tb) \<and>
              (operation = OperationMove \<longrightarrow>
                 renderNode (markMoves ix) (StructuralSourceNode operation tag blockContent) =
                   (if tag \<in> set (moveTargetTags nodes) then [] else tb))) \<and>
           (operation = OperationMove \<and> tag \<notin> set (moveTargetTags nodes) \<longrightarrow>
              renderNode (markMoves ix) (StructuralSourceNode operation tag blockContent) =
                (if Contains tb ''(ERROR_'' then tb
                 else ''{'' @ operation @ ''~'' @ blockContent @ ''~'' @ tag @ ''}'')) \<and>
           (operation = OperationCopy \<and> StructuralTargetNode OperationCopy tag \<notin> set nodes \<longrightarrow>
              renderNode (markMoves ix) (StructuralSourceNode operation tag blockContent) =
                (if Contains tb ''(ERROR_'' then tb
                 else ''{'' @ operation @ ''~'' @ blockContent @ ''~'' @ tag @ ''}'')) \<and>
           (operation = OperationMove \<and> tag \<in> set (moveTargetTags nodes) \<longrightarrow>
              renderNode (markMoves ix) (StructuralSourceNode operation tag blockContent) = [] \<and>
              renderNode (markMoves ix) (StructuralTargetNode operation tag) = tb) \<and>
           (operation = OperationCopy \<and> StructuralTargetNode OperationCopy tag \<in> set nodes \<longrightarrow>
              renderNode (markMoves ix) (StructuralSourceNode operation tag blockContent) = tb \<and>
              renderNode (markMoves ix) (StructuralTargetNode operation tag) = tb) \<and>
           (operation \<noteq> OperationMove \<and> operation \<noteq> OperationCopy \<longrightarrow>
              renderNode (markMoves ix) (StructuralSourceNode operation tag blockContent) = [])"
proof -
  from prescan_marked [OF fp src dm] obtain tb
    where tb: "preTransform (TransformToCleanView fuel) operation tag blockContent = Some tb"
      and md: "allSources (markMoves ix) tag =
                 Some \<lparr>srcNode = StructuralSourceNode operation tag blockContent, transformedBlock = tb,
                       isUsedAsMove = (operation = OperationMove \<and> tag \<in> set (moveTargetTags nodes))\<rparr>"
    by blast
  note res = preTransform_result [OF tb]
  note cp = prescan_has_target [OF fp, where tag = tag and operation = OperationCopy]
  have c: "Contains tb ''(ERROR_''" if "blockConflict blockContent"
    using res that Contains_marker [of operation blockContent tag] by simp
  have 1: "\<not> blockConflict blockContent \<longrightarrow>
              TransformToCleanView fuel (fst (ParseEditMLToNodes blockContent)) = Some (tb, None)"
    using res by simp
  have 2: "blockConflict blockContent \<longrightarrow>
              tb = ''{'' @ operation @ ''~'' @ blockContent @ '' (ERROR_TRANSFORMING_CONTENT)~'' @ tag @ ''}'' \<and>
              renderNode (markMoves ix) (StructuralTargetNode operation tag) = tb \<and>
              (operation = OperationCopy \<longrightarrow>
                 renderNode (markMoves ix) (StructuralSourceNode operation tag blockContent) = tb) \<and>
              (operation = OperationMove \<longrightarrow>
                 renderNode (markMoves ix) (StructuralSourceNode operation tag blockContent) =
                   (if tag \<in> set (moveTargetTags nodes) then [] else tb))"
  proof
    assume b: "blockConflict blockContent"
    from res b have "tb = ''{'' @ operation @ ''~'' @ blockContent @ '' (ERROR_TRANSFORMING_CONTENT)~'' @ tag @ ''}''"
      by simp
    moreover have "renderNode (markMoves ix) (StructuralTargetNode operation tag) = tb"
      using md c [OF b] by (simp add: renderNode_def)
    moreover have "operation = OperationCopy \<longrightarrow>
                 renderNode (markMoves ix) (StructuralSourceNode operation tag blockContent) = tb"
      using md c [OF b] by (simp add: renderNode_def)
    moreover have "operation = OperationMove \<longrightarrow>
                 renderNode (markMoves ix) (StructuralSourceNode operation tag blockContent) =
                   (if tag \<in> set (moveTargetTags nodes) then [] else tb)"
      using md c [OF b] by (simp add: renderNode_def)
    ultimately show "tb = ''{'' @ operation @ ''~'' @ blockContent @ '' (ERROR_TRANSFORMING_CONTENT)~'' @ tag @ ''}'' \<and>
              renderNode (markMoves ix) (StructuralTargetNode operation tag) = tb \<and>
              (operation = OperationCopy \<longrightarrow>
                 renderNode (markMoves ix) (StructuralSourceNode operation tag blockContent) = tb) \<and>
              (operation = OperationMove \<longrightarrow>
                 renderNode (markMoves ix) (StructuralSourceNode operation tag blockContent) =
                   (if tag \<in> set (moveTargetTags nodes) then [] else tb))"
      by (intro conjI)
  qed
  have 3: "operation = OperationMove \<and> tag \<notin> set (moveTargetTags nodes) \<longrightarrow>
              renderNode (markMoves ix) (StructuralSourceNode operation tag blockContent) =
                (if Contains tb ''(ERROR_'' then tb
                 else ''{'' @ operation @ ''~'' @ blockContent @ ''~'' @ tag @ ''}'')"
    using md by (simp add: renderNode_def literalSource_def)
  have 4: "operation = OperationCopy \<and> StructuralTargetNode OperationCopy tag \<notin> set nodes \<longrightarrow>
              renderNode (markMoves ix) (StructuralSourceNode operation tag blockContent) =
                (if Contains tb ''(ERROR_'' then tb
                 else ''{'' @ operation @ ''~'' @ blockContent @ ''~'' @ tag @ ''}'')"
    using md cp by (simp add: renderNode_def literalSource_def)
  have 5: "operation = OperationMove \<and> tag \<in> set (moveTargetTags nodes) \<longrightarrow>
              renderNode (markMoves ix) (StructuralSourceNode operation tag blockContent) = [] \<and>
              renderNode (markMoves ix) (StructuralTargetNode operation tag) = tb"
    using md by (simp add: renderNode_def)
  have 6: "operation = OperationCopy \<and> StructuralTargetNode OperationCopy tag \<in> set nodes \<longrightarrow>
              renderNode (markMoves ix) (StructuralSourceNode operation tag blockContent) = tb \<and>
              renderNode (markMoves ix) (StructuralTargetNode operation tag) = tb"
    using md cp by (simp add: renderNode_def)
  have 7: "operation \<noteq> OperationMove \<and> operation \<noteq> OperationCopy \<longrightarrow>
              renderNode (markMoves ix) (StructuralSourceNode operation tag blockContent) = []"
    using md by (simp add: renderNode_def)
  from tb 1 2 3 4 5 6 7 show ?thesis by (intro exI [of _ tb] conjI)
qed

section \<open>Fatal conflicts and localized substitutions\<close>

text \<open>
  C1: for every node sequence the call returns, and it returns a document-level issue
  exactly when two source nodes share a tag (whatever their operations) or two target
  nodes with operation \<open>move\<close> share a tag. In every other case no issue is returned,
  the output is the concatenation of what each node writes, and every other problem is
  a substitution at the node it concerns. A target whose tag has no source writes its
  literal form \<open>{op:tag}\<close>. A target whose operation differs from the operation of the
  source of its tag writes the mismatch marker. The block of a source is the Clean View
  of its content, or the \<open>ERROR_TRANSFORMING_CONTENT\<close> marker when the content holds a
  fatal conflict of its own; the marker is written by every target of the source's
  operation and by the source itself (by a move source only when it has no move target:
  with one, the target writes it in its place). A move source without a move target and
  a copy source without a copy target write their literal form \<open>{op~content~tag}\<close>, or
  their block when it holds an error marker. Move and copy are the two operations of the
  data model and the only ones the parser makes; a source node with any other operation
  string writes nothing.
\<close>

theorem C1_fatal_iff_structural_conflict:
  "(\<exists>fuel r. TransformCleanView fuel nodes = Some r) \<and>
   (\<forall>fuel outputText issues. TransformCleanView fuel nodes = Some (outputText, issues) \<longrightarrow>
      (issues \<noteq> []) = (\<not> distinct (sourceTags nodes) \<or> \<not> distinct (moveTargetTags nodes)) \<and>
      (issues = [] \<longrightarrow>
         (\<exists>ix. firstPass (TransformToCleanView (fuel - 1)) nodes emptyIndices = Some (Inr ix) \<and>
               outputText = concat (map (renderNode (markMoves ix)) nodes) \<and>
               (\<forall>operation tag. tag \<notin> set (sourceTags nodes) \<longrightarrow>
                  renderNode (markMoves ix) (StructuralTargetNode operation tag) =
                    ''{'' @ operation @ '':'' @ tag @ ''}'') \<and>
               (\<forall>operation sop tag blockContent.
                  StructuralSourceNode sop tag blockContent \<in> set nodes \<and> operation \<noteq> sop \<longrightarrow>
                  renderNode (markMoves ix) (StructuralTargetNode operation tag) =
                    ''{'' @ operation @ '':'' @ tag @
                    '' (ERROR_OPERATION_MISMATCH_WITH_SOURCE '' @ sop @ '')}'') \<and>
               (\<forall>operation tag blockContent.
                  StructuralSourceNode operation tag blockContent \<in> set nodes \<longrightarrow>
                  (\<exists>tb.
                     (\<not> blockConflict blockContent \<longrightarrow>
                        TransformToCleanView (fuel - 1) (fst (ParseEditMLToNodes blockContent)) =
                          Some (tb, None)) \<and>
                     (blockConflict blockContent \<longrightarrow>
                        tb = ''{'' @ operation @ ''~'' @ blockContent @
                             '' (ERROR_TRANSFORMING_CONTENT)~'' @ tag @ ''}'' \<and>
                        renderNode (markMoves ix) (StructuralTargetNode operation tag) = tb \<and>
                        (operation = OperationCopy \<longrightarrow>
                           renderNode (markMoves ix)
                             (StructuralSourceNode operation tag blockContent) = tb) \<and>
                        (operation = OperationMove \<longrightarrow>
                           renderNode (markMoves ix)
                             (StructuralSourceNode operation tag blockContent) =
                             (if tag \<in> set (moveTargetTags nodes) then [] else tb))) \<and>
                     (operation = OperationMove \<and> tag \<notin> set (moveTargetTags nodes) \<longrightarrow>
                        renderNode (markMoves ix) (StructuralSourceNode operation tag blockContent) =
                          (if Contains tb ''(ERROR_'' then tb
                           else ''{'' @ operation @ ''~'' @ blockContent @ ''~'' @ tag @ ''}'')) \<and>
                     (operation = OperationCopy \<and>
                      StructuralTargetNode OperationCopy tag \<notin> set nodes \<longrightarrow>
                        renderNode (markMoves ix) (StructuralSourceNode operation tag blockContent) =
                          (if Contains tb ''(ERROR_'' then tb
                           else ''{'' @ operation @ ''~'' @ blockContent @ ''~'' @ tag @ ''}'')) \<and>
                     (operation \<noteq> OperationMove \<and> operation \<noteq> OperationCopy \<longrightarrow>
                        renderNode (markMoves ix) (StructuralSourceNode operation tag blockContent) =
                          []))))))"
proof (intro conjI allI impI)
  show "\<exists>fuel r. TransformCleanView fuel nodes = Some r" by (rule TransformCleanView_returns)
next
  fix fuel outputText issues
  assume a: "TransformCleanView fuel nodes = Some (outputText, issues)"
  from TransformCleanView_Some [OF a] obtain err
    where t: "TransformToCleanView fuel nodes = Some (outputText, err)"
      and i: "(issues \<noteq> []) = (err \<noteq> None)" by auto
  from TransformToCleanView_conflict(1) [OF t] i
  show c: "(issues \<noteq> []) = (\<not> distinct (sourceTags nodes) \<or> \<not> distinct (moveTargetTags nodes))"
    by simp
  assume e: "issues = []"
  with i have "err = None" by simp
  with t TransformToCleanView_output [of fuel nodes outputText]
  obtain ix where fp: "firstPass (TransformToCleanView (fuel - 1)) nodes emptyIndices = Some (Inr ix)"
    and out: "outputText = concat (map (renderNode (markMoves ix)) nodes)"
    by auto
  from c e have dm: "distinct (moveTargetTags nodes)" by simp
  have u: "\<forall>operation tag. tag \<notin> set (sourceTags nodes) \<longrightarrow>
                  renderNode (markMoves ix) (StructuralTargetNode operation tag) =
                    ''{'' @ operation @ '':'' @ tag @ ''}''"
    using render_unresolved_target [OF fp] by blast
  have m: "\<forall>operation sop tag blockContent.
                  StructuralSourceNode sop tag blockContent \<in> set nodes \<and> operation \<noteq> sop \<longrightarrow>
                  renderNode (markMoves ix) (StructuralTargetNode operation tag) =
                    ''{'' @ operation @ '':'' @ tag @
                    '' (ERROR_OPERATION_MISMATCH_WITH_SOURCE '' @ sop @ '')}''"
    using render_mismatch [OF fp dm] by blast
  have s: "\<forall>operation tag blockContent.
                  StructuralSourceNode operation tag blockContent \<in> set nodes \<longrightarrow>
                  (\<exists>tb.
                     (\<not> blockConflict blockContent \<longrightarrow>
                        TransformToCleanView (fuel - 1) (fst (ParseEditMLToNodes blockContent)) =
                          Some (tb, None)) \<and>
                     (blockConflict blockContent \<longrightarrow>
                        tb = ''{'' @ operation @ ''~'' @ blockContent @
                             '' (ERROR_TRANSFORMING_CONTENT)~'' @ tag @ ''}'' \<and>
                        renderNode (markMoves ix) (StructuralTargetNode operation tag) = tb \<and>
                        (operation = OperationCopy \<longrightarrow>
                           renderNode (markMoves ix)
                             (StructuralSourceNode operation tag blockContent) = tb) \<and>
                        (operation = OperationMove \<longrightarrow>
                           renderNode (markMoves ix)
                             (StructuralSourceNode operation tag blockContent) =
                             (if tag \<in> set (moveTargetTags nodes) then [] else tb))) \<and>
                     (operation = OperationMove \<and> tag \<notin> set (moveTargetTags nodes) \<longrightarrow>
                        renderNode (markMoves ix) (StructuralSourceNode operation tag blockContent) =
                          (if Contains tb ''(ERROR_'' then tb
                           else ''{'' @ operation @ ''~'' @ blockContent @ ''~'' @ tag @ ''}'')) \<and>
                     (operation = OperationCopy \<and>
                      StructuralTargetNode OperationCopy tag \<notin> set nodes \<longrightarrow>
                        renderNode (markMoves ix) (StructuralSourceNode operation tag blockContent) =
                          (if Contains tb ''(ERROR_'' then tb
                           else ''{'' @ operation @ ''~'' @ blockContent @ ''~'' @ tag @ ''}'')) \<and>
                     (operation \<noteq> OperationMove \<and> operation \<noteq> OperationCopy \<longrightarrow>
                        renderNode (markMoves ix) (StructuralSourceNode operation tag blockContent) =
                          []))"
  proof (intro allI impI)
    fix operation tag blockContent
    assume src: "StructuralSourceNode operation tag blockContent \<in> set nodes"
    from render_source [OF fp dm src]
    show "\<exists>tb.
                     (\<not> blockConflict blockContent \<longrightarrow>
                        TransformToCleanView (fuel - 1) (fst (ParseEditMLToNodes blockContent)) =
                          Some (tb, None)) \<and>
                     (blockConflict blockContent \<longrightarrow>
                        tb = ''{'' @ operation @ ''~'' @ blockContent @
                             '' (ERROR_TRANSFORMING_CONTENT)~'' @ tag @ ''}'' \<and>
                        renderNode (markMoves ix) (StructuralTargetNode operation tag) = tb \<and>
                        (operation = OperationCopy \<longrightarrow>
                           renderNode (markMoves ix)
                             (StructuralSourceNode operation tag blockContent) = tb) \<and>
                        (operation = OperationMove \<longrightarrow>
                           renderNode (markMoves ix)
                             (StructuralSourceNode operation tag blockContent) =
                             (if tag \<in> set (moveTargetTags nodes) then [] else tb))) \<and>
                     (operation = OperationMove \<and> tag \<notin> set (moveTargetTags nodes) \<longrightarrow>
                        renderNode (markMoves ix) (StructuralSourceNode operation tag blockContent) =
                          (if Contains tb ''(ERROR_'' then tb
                           else ''{'' @ operation @ ''~'' @ blockContent @ ''~'' @ tag @ ''}'')) \<and>
                     (operation = OperationCopy \<and>
                      StructuralTargetNode OperationCopy tag \<notin> set nodes \<longrightarrow>
                        renderNode (markMoves ix) (StructuralSourceNode operation tag blockContent) =
                          (if Contains tb ''(ERROR_'' then tb
                           else ''{'' @ operation @ ''~'' @ blockContent @ ''~'' @ tag @ ''}'')) \<and>
                     (operation \<noteq> OperationMove \<and> operation \<noteq> OperationCopy \<longrightarrow>
                        renderNode (markMoves ix) (StructuralSourceNode operation tag blockContent) =
                          [])"
      by (elim exE conjE) (intro exI conjI; assumption)
  qed
  from fp out u m s
  show "\<exists>ix. firstPass (TransformToCleanView (fuel - 1)) nodes emptyIndices = Some (Inr ix) \<and>
               outputText = concat (map (renderNode (markMoves ix)) nodes) \<and>
               (\<forall>operation tag. tag \<notin> set (sourceTags nodes) \<longrightarrow>
                  renderNode (markMoves ix) (StructuralTargetNode operation tag) =
                    ''{'' @ operation @ '':'' @ tag @ ''}'') \<and>
               (\<forall>operation sop tag blockContent.
                  StructuralSourceNode sop tag blockContent \<in> set nodes \<and> operation \<noteq> sop \<longrightarrow>
                  renderNode (markMoves ix) (StructuralTargetNode operation tag) =
                    ''{'' @ operation @ '':'' @ tag @
                    '' (ERROR_OPERATION_MISMATCH_WITH_SOURCE '' @ sop @ '')}'') \<and>
               (\<forall>operation tag blockContent.
                  StructuralSourceNode operation tag blockContent \<in> set nodes \<longrightarrow>
                  (\<exists>tb.
                     (\<not> blockConflict blockContent \<longrightarrow>
                        TransformToCleanView (fuel - 1) (fst (ParseEditMLToNodes blockContent)) =
                          Some (tb, None)) \<and>
                     (blockConflict blockContent \<longrightarrow>
                        tb = ''{'' @ operation @ ''~'' @ blockContent @
                             '' (ERROR_TRANSFORMING_CONTENT)~'' @ tag @ ''}'' \<and>
                        renderNode (markMoves ix) (StructuralTargetNode operation tag) = tb \<and>
                        (operation = OperationCopy \<longrightarrow>
                           renderNode (markMoves ix)
                             (StructuralSourceNode operation tag blockContent) = tb) \<and>
                        (operation = OperationMove \<longrightarrow>
                           renderNode (markMoves ix)
                             (StructuralSourceNode operation tag blockContent) =
                             (if tag \<in> set (moveTargetTags nodes) then [] else tb))) \<and>
                     (operation = OperationMove \<and> tag \<notin> set (moveTargetTags nodes) \<longrightarrow>
                        renderNode (markMoves ix) (StructuralSourceNode operation tag blockContent) =
                          (if Contains tb ''(ERROR_'' then tb
                           else ''{'' @ operation @ ''~'' @ blockContent @ ''~'' @ tag @ ''}'')) \<and>
                     (operation = OperationCopy \<and>
                      StructuralTargetNode OperationCopy tag \<notin> set nodes \<longrightarrow>
                        renderNode (markMoves ix) (StructuralSourceNode operation tag blockContent) =
                          (if Contains tb ''(ERROR_'' then tb
                           else ''{'' @ operation @ ''~'' @ blockContent @ ''~'' @ tag @ ''}'')) \<and>
                     (operation \<noteq> OperationMove \<and> operation \<noteq> OperationCopy \<longrightarrow>
                        renderNode (markMoves ix) (StructuralSourceNode operation tag blockContent) =
                          [])))"
    by (intro exI [of _ ix] conjI)
qed

theorem C1_fatal_iff_structural_conflict_witness:
  "TransformCleanView 3
     [StructuralSourceNode OperationCopy ''T'' ''x'', StructuralTargetNode OperationMove ''T'',
      StructuralTargetNode OperationMove ''Z'',
      StructuralSourceNode OperationMove ''W'' ''{m~a~D}{m~b~D}''] =
     Some (''{copy~x~T}{move:T (ERROR_OPERATION_MISMATCH_WITH_SOURCE copy)}{move:Z}{move~{m~a~D}{m~b~D} (ERROR_TRANSFORMING_CONTENT)~W}'', []) \<and>
   distinct (sourceTags
     [StructuralSourceNode OperationCopy ''T'' ''x'', StructuralTargetNode OperationMove ''T'',
      StructuralTargetNode OperationMove ''Z'',
      StructuralSourceNode OperationMove ''W'' ''{m~a~D}{m~b~D}'']) \<and>
   distinct (moveTargetTags
     [StructuralSourceNode OperationCopy ''T'' ''x'', StructuralTargetNode OperationMove ''T'',
      StructuralTargetNode OperationMove ''Z'',
      StructuralSourceNode OperationMove ''W'' ''{m~a~D}{m~b~D}'']) \<and>
   (\<exists>ix. firstPass (TransformToCleanView 2)
           [StructuralSourceNode OperationCopy ''T'' ''x'', StructuralTargetNode OperationMove ''T'',
            StructuralTargetNode OperationMove ''Z'',
            StructuralSourceNode OperationMove ''W'' ''{m~a~D}{m~b~D}''] emptyIndices = Some (Inr ix) \<and>
         renderNode (markMoves ix) (StructuralTargetNode OperationMove ''Z'') = ''{move:Z}'' \<and>
         renderNode (markMoves ix) (StructuralTargetNode OperationMove ''T'') =
           ''{move:T (ERROR_OPERATION_MISMATCH_WITH_SOURCE copy)}'' \<and>
         renderNode (markMoves ix) (StructuralSourceNode OperationCopy ''T'' ''x'') = ''{copy~x~T}'' \<and>
         renderNode (markMoves ix) (StructuralSourceNode OperationMove ''W'' ''{m~a~D}{m~b~D}'') =
           ''{move~{m~a~D}{m~b~D} (ERROR_TRANSFORMING_CONTENT)~W}'')"
proof -
  define nodes where "nodes =
     [StructuralSourceNode OperationCopy ''T'' ''x'', StructuralTargetNode OperationMove ''T'',
      StructuralTargetNode OperationMove ''Z'',
      StructuralSourceNode OperationMove ''W'' ''{m~a~D}{m~b~D}'']"
  have t: "TransformCleanView 3 nodes =
     Some (''{copy~x~T}{move:T (ERROR_OPERATION_MISMATCH_WITH_SOURCE copy)}{move:Z}{move~{m~a~D}{m~b~D} (ERROR_TRANSFORMING_CONTENT)~W}'', [])"
    unfolding nodes_def by code_simp
  have st: "sourceTags nodes = [''T'', ''W'']" and mt: "moveTargetTags nodes = [''T'', ''Z'']"
    by (simp_all add: nodes_def)
  have bx: "\<not> blockConflict ''x''" by code_simp
  have tx: "TransformToCleanView 2 (fst (ParseEditMLToNodes ''x'')) = Some (''x'', None)" by code_simp
  have cx: "\<not> Contains ''x'' ''(ERROR_''" by code_simp
  have bw: "blockConflict ''{m~a~D}{m~b~D}''" by code_simp
  from C1_fatal_iff_structural_conflict
    [of nodes, THEN conjunct2, THEN spec, THEN spec, THEN spec, THEN mp, OF t,
     THEN conjunct2, THEN mp, OF refl]
  obtain ix where fp: "firstPass (TransformToCleanView (3 - 1)) nodes emptyIndices = Some (Inr ix)"
    and u: "\<forall>operation tag. tag \<notin> set (sourceTags nodes) \<longrightarrow>
                  renderNode (markMoves ix) (StructuralTargetNode operation tag) =
                    ''{'' @ operation @ '':'' @ tag @ ''}''"
    and m: "\<forall>operation sop tag blockContent.
                  StructuralSourceNode sop tag blockContent \<in> set nodes \<and> operation \<noteq> sop \<longrightarrow>
                  renderNode (markMoves ix) (StructuralTargetNode operation tag) =
                    ''{'' @ operation @ '':'' @ tag @
                    '' (ERROR_OPERATION_MISMATCH_WITH_SOURCE '' @ sop @ '')}''"
    and s: "\<forall>operation tag blockContent.
                  StructuralSourceNode operation tag blockContent \<in> set nodes \<longrightarrow>
                  (\<exists>tb.
                     (\<not> blockConflict blockContent \<longrightarrow>
                        TransformToCleanView (3 - 1) (fst (ParseEditMLToNodes blockContent)) =
                          Some (tb, None)) \<and>
                     (blockConflict blockContent \<longrightarrow>
                        tb = ''{'' @ operation @ ''~'' @ blockContent @
                             '' (ERROR_TRANSFORMING_CONTENT)~'' @ tag @ ''}'' \<and>
                        renderNode (markMoves ix) (StructuralTargetNode operation tag) = tb \<and>
                        (operation = OperationCopy \<longrightarrow>
                           renderNode (markMoves ix)
                             (StructuralSourceNode operation tag blockContent) = tb) \<and>
                        (operation = OperationMove \<longrightarrow>
                           renderNode (markMoves ix)
                             (StructuralSourceNode operation tag blockContent) =
                             (if tag \<in> set (moveTargetTags nodes) then [] else tb))) \<and>
                     (operation = OperationMove \<and> tag \<notin> set (moveTargetTags nodes) \<longrightarrow>
                        renderNode (markMoves ix) (StructuralSourceNode operation tag blockContent) =
                          (if Contains tb ''(ERROR_'' then tb
                           else ''{'' @ operation @ ''~'' @ blockContent @ ''~'' @ tag @ ''}'')) \<and>
                     (operation = OperationCopy \<and>
                      StructuralTargetNode OperationCopy tag \<notin> set nodes \<longrightarrow>
                        renderNode (markMoves ix) (StructuralSourceNode operation tag blockContent) =
                          (if Contains tb ''(ERROR_'' then tb
                           else ''{'' @ operation @ ''~'' @ blockContent @ ''~'' @ tag @ ''}'')) \<and>
                     (operation \<noteq> OperationMove \<and> operation \<noteq> OperationCopy \<longrightarrow>
                        renderNode (markMoves ix) (StructuralSourceNode operation tag blockContent) =
                          []))"
    by (elim exE conjE) (rule that; assumption)
  have two: "(3::nat) - 1 = 2" by simp
  have r1: "renderNode (markMoves ix) (StructuralTargetNode OperationMove ''Z'') = ''{move:Z}''"
    using u [rule_format, of "''Z''" OperationMove] by (simp add: st)
  have r2: "renderNode (markMoves ix) (StructuralTargetNode OperationMove ''T'') =
           ''{move:T (ERROR_OPERATION_MISMATCH_WITH_SOURCE copy)}''"
    using m [rule_format, of OperationCopy "''T''" "''x''" OperationMove] by (simp add: nodes_def)
  have r3: "renderNode (markMoves ix) (StructuralSourceNode OperationCopy ''T'' ''x'') = ''{copy~x~T}''"
  proof -
    from s [rule_format, of OperationCopy "''T''" "''x''"] bx obtain tb
      where "TransformToCleanView (3 - 1) (fst (ParseEditMLToNodes ''x'')) = Some (tb, None)"
        and w: "OperationCopy = OperationCopy \<and> StructuralTargetNode OperationCopy ''T'' \<notin> set nodes \<longrightarrow>
           renderNode (markMoves ix) (StructuralSourceNode OperationCopy ''T'' ''x'') =
             (if Contains tb ''(ERROR_'' then tb else ''{'' @ OperationCopy @ ''~'' @ ''x'' @ ''~'' @ ''T'' @ ''}'')"
      by (auto simp: nodes_def)
    with tx have "tb = ''x''" by (simp add: two)
    with w cx show ?thesis by (simp add: nodes_def)
  qed
  have r4: "renderNode (markMoves ix) (StructuralSourceNode OperationMove ''W'' ''{m~a~D}{m~b~D}'') =
           ''{move~{m~a~D}{m~b~D} (ERROR_TRANSFORMING_CONTENT)~W}''"
  proof -
    from s [rule_format, of OperationMove "''W''" "''{m~a~D}{m~b~D}''"] bw obtain tb
      where "tb = ''{'' @ OperationMove @ ''~'' @ ''{m~a~D}{m~b~D}'' @
                             '' (ERROR_TRANSFORMING_CONTENT)~'' @ ''W'' @ ''}''"
        and "renderNode (markMoves ix) (StructuralSourceNode OperationMove ''W'' ''{m~a~D}{m~b~D}'') =
               (if ''W'' \<in> set (moveTargetTags nodes) then [] else tb)"
      by (auto simp: nodes_def)
    then show ?thesis by (simp add: mt)
  qed
  have "\<exists>ix. firstPass (TransformToCleanView 2) nodes emptyIndices = Some (Inr ix) \<and>
         renderNode (markMoves ix) (StructuralTargetNode OperationMove ''Z'') = ''{move:Z}'' \<and>
         renderNode (markMoves ix) (StructuralTargetNode OperationMove ''T'') =
           ''{move:T (ERROR_OPERATION_MISMATCH_WITH_SOURCE copy)}'' \<and>
         renderNode (markMoves ix) (StructuralSourceNode OperationCopy ''T'' ''x'') = ''{copy~x~T}'' \<and>
         renderNode (markMoves ix) (StructuralSourceNode OperationMove ''W'' ''{m~a~D}{m~b~D}'') =
           ''{move~{m~a~D}{m~b~D} (ERROR_TRANSFORMING_CONTENT)~W}''"
    using fp r1 r2 r3 r4 unfolding two by (intro exI [of _ ix] conjI)
  moreover have "distinct (sourceTags nodes)" "distinct (moveTargetTags nodes)"
    by (simp_all add: st mt)
  ultimately show ?thesis using t unfolding nodes_def by (intro conjI)
qed

section \<open>Move and copy resolution\<close>

text \<open>
  C3, amended: in a document without a fatal structural conflict (no two sources with
  one tag, no two move targets with one tag, so that the call renders at all), a move
  source whose tag has exactly one move target is marked as used, writes nothing at its
  own place, and the move target writes the block of the source: the Clean View of the
  block content (the content parsed and rendered by the same pipeline), or the
  \<open>ERROR_TRANSFORMING_CONTENT\<close> marker when the block content holds a fatal conflict of
  its own. A target of the same tag with another operation writes the mismatch marker.
  The output is the concatenation of what the nodes write, in document order.
\<close>

theorem C3_move_consumption:
  assumes src: "StructuralSourceNode OperationMove tag blockContent \<in> set nodes"
    and one: "count_list (moveTargetTags nodes) tag = 1"
    and noconflict: "distinct (sourceTags nodes)" "distinct (moveTargetTags nodes)"
    and fuel: "enoughFuel (Suc fuel) nodes"
  shows "\<exists>ix tb d.
           firstPass (TransformToCleanView fuel) nodes emptyIndices = Some (Inr ix) \<and>
           preTransform (TransformToCleanView fuel) OperationMove tag blockContent = Some tb \<and>
           (\<not> blockConflict blockContent \<longrightarrow>
              TransformToCleanView fuel (fst (ParseEditMLToNodes blockContent)) = Some (tb, None)) \<and>
           (blockConflict blockContent \<longrightarrow>
              tb = ''{'' @ OperationMove @ ''~'' @ blockContent @
                   '' (ERROR_TRANSFORMING_CONTENT)~'' @ tag @ ''}'') \<and>
           allSources (markMoves ix) tag = Some d \<and> isUsedAsMove d \<and>
           TransformToCleanView (Suc fuel) nodes =
             Some (concat (map (renderNode (markMoves ix)) nodes), None) \<and>
           renderNode (markMoves ix) (StructuralSourceNode OperationMove tag blockContent) = [] \<and>
           renderNode (markMoves ix) (StructuralTargetNode OperationMove tag) = tb \<and>
           StructuralTargetNode OperationMove tag \<in> set nodes \<and>
           (\<forall>operation. operation \<noteq> OperationMove \<longrightarrow>
              renderNode (markMoves ix) (StructuralTargetNode operation tag) =
                ''{'' @ operation @ '':'' @ tag @ '' (ERROR_OPERATION_MISMATCH_WITH_SOURCE move)}'')"
proof -
  from prescan_succeeds [OF fuel noconflict] obtain ix
    where fp: "firstPass (TransformToCleanView fuel) nodes emptyIndices = Some (Inr ix)"
      and out: "TransformToCleanView (Suc fuel) nodes =
                  Some (concat (map (renderNode (markMoves ix)) nodes), None)"
    by auto
  from one have mem: "tag \<in> set (moveTargetTags nodes)"
    by (metis count_list_0_iff zero_neq_one)
  then have tgt: "StructuralTargetNode OperationMove tag \<in> set nodes" by (rule moveTargetTags_mem)
  from prescan_marked [OF fp src noconflict(2)] mem obtain tb
    where tb: "preTransform (TransformToCleanView fuel) OperationMove tag blockContent = Some tb"
      and md: "allSources (markMoves ix) tag =
                 Some \<lparr>srcNode = StructuralSourceNode OperationMove tag blockContent,
                       transformedBlock = tb, isUsedAsMove = True\<rparr>"
    by auto
  define d where "d = \<lparr>srcNode = StructuralSourceNode OperationMove tag blockContent,
                        transformedBlock = tb, isUsedAsMove = True\<rparr>"
  note res = preTransform_result [OF tb]
  have b1: "\<not> blockConflict blockContent \<longrightarrow>
              TransformToCleanView fuel (fst (ParseEditMLToNodes blockContent)) = Some (tb, None)"
    using res by simp
  have b2: "blockConflict blockContent \<longrightarrow>
              tb = ''{'' @ OperationMove @ ''~'' @ blockContent @
                   '' (ERROR_TRANSFORMING_CONTENT)~'' @ tag @ ''}''"
    using res by simp
  have md': "allSources (markMoves ix) tag = Some d" using md by (simp add: d_def)
  have r1: "renderNode (markMoves ix) (StructuralSourceNode OperationMove tag blockContent) = []"
    using md by (simp add: renderNode_def)
  have r2: "renderNode (markMoves ix) (StructuralTargetNode OperationMove tag) = tb"
    using md by (simp add: renderNode_def)
  have r3: "\<forall>operation. operation \<noteq> OperationMove \<longrightarrow>
              renderNode (markMoves ix) (StructuralTargetNode operation tag) =
                ''{'' @ operation @ '':'' @ tag @ '' (ERROR_OPERATION_MISMATCH_WITH_SOURCE move)}''"
    using md by (simp add: renderNode_def)
  have u: "isUsedAsMove d" by (simp add: d_def)
  from fp tb b1 b2 md' u out r1 r2 tgt r3 show ?thesis
    by (intro exI [of _ ix] exI [of _ tb] exI [of _ d] conjI)
qed

theorem C3_move_consumption_witness:
  "fst (ParseEditMLToNodes ''{move~{+b+}c~T1}...{move:T1}'') =
     [StructuralSourceNode OperationMove ''T1'' ''{+b+}c'', TextNode ''...'',
      StructuralTargetNode OperationMove ''T1''] \<and>
   TransformToCleanView 9
     [StructuralSourceNode OperationMove ''T1'' ''{+b+}c'', TextNode ''...'',
      StructuralTargetNode OperationMove ''T1''] = Some (''...bc'', None) \<and>
   (\<exists>ix. firstPass (TransformToCleanView 8)
           [StructuralSourceNode OperationMove ''T1'' ''{+b+}c'', TextNode ''...'',
            StructuralTargetNode OperationMove ''T1''] emptyIndices = Some (Inr ix) \<and>
         renderNode (markMoves ix) (StructuralSourceNode OperationMove ''T1'' ''{+b+}c'') = [] \<and>
         renderNode (markMoves ix) (StructuralTargetNode OperationMove ''T1'') = ''bc'') \<and>
   TransformToCleanView 7 (fst (ParseEditMLToNodes ''{move~block~T1}...{move:T1}'')) =
     Some (''...block'', None) \<and>
   TransformToCleanView 3 (fst (ParseEditMLToNodes ''{move~{move:A}{move:A}~T}|{move:T}'')) =
     Some (''|{move~{move:A}{move:A} (ERROR_TRANSFORMING_CONTENT)~T}'', None)"
proof -
  have p: "fst (ParseEditMLToNodes ''{move~{+b+}c~T1}...{move:T1}'') =
     [StructuralSourceNode OperationMove ''T1'' ''{+b+}c'', TextNode ''...'',
      StructuralTargetNode OperationMove ''T1'']"
    by code_simp
  have t: "TransformToCleanView 9
     [StructuralSourceNode OperationMove ''T1'' ''{+b+}c'', TextNode ''...'',
      StructuralTargetNode OperationMove ''T1''] = Some (''...bc'', None)"
    by code_simp
  have e1: "TransformToCleanView 7 (fst (ParseEditMLToNodes ''{move~block~T1}...{move:T1}'')) =
     Some (''...block'', None)"
    by code_simp
  have e2: "TransformToCleanView 3 (fst (ParseEditMLToNodes ''{move~{move:A}{move:A}~T}|{move:T}'')) =
     Some (''|{move~{move:A}{move:A} (ERROR_TRANSFORMING_CONTENT)~T}'', None)"
    by code_simp
  have nb: "\<not> blockConflict ''{+b+}c''" by code_simp
  have b: "TransformToCleanView 8 (fst (ParseEditMLToNodes ''{+b+}c'')) = Some (''bc'', None)"
    by code_simp
  have f: "enoughFuel (Suc 8)
     [StructuralSourceNode OperationMove ''T1'' ''{+b+}c'', TextNode ''...'',
      StructuralTargetNode OperationMove ''T1'']"
    by (simp add: enoughFuel_def)
  have h1: "StructuralSourceNode OperationMove ''T1'' ''{+b+}c'' \<in> set
     [StructuralSourceNode OperationMove ''T1'' ''{+b+}c'', TextNode ''...'',
      StructuralTargetNode OperationMove ''T1'']"
    by simp
  have h2: "count_list (moveTargetTags
     [StructuralSourceNode OperationMove ''T1'' ''{+b+}c'', TextNode ''...'',
      StructuralTargetNode OperationMove ''T1'']) ''T1'' = 1"
    by simp
  have h3: "distinct (sourceTags
     [StructuralSourceNode OperationMove ''T1'' ''{+b+}c'', TextNode ''...'',
      StructuralTargetNode OperationMove ''T1''])"
    by simp
  have h4: "distinct (moveTargetTags
     [StructuralSourceNode OperationMove ''T1'' ''{+b+}c'', TextNode ''...'',
      StructuralTargetNode OperationMove ''T1''])"
    by simp
  from C3_move_consumption [OF h1 h2 h3 h4 f] obtain ix tb
    where fp: "firstPass (TransformToCleanView 8)
           [StructuralSourceNode OperationMove ''T1'' ''{+b+}c'', TextNode ''...'',
            StructuralTargetNode OperationMove ''T1''] emptyIndices = Some (Inr ix)"
      and pt: "\<not> blockConflict ''{+b+}c'' \<longrightarrow>
                 TransformToCleanView 8 (fst (ParseEditMLToNodes ''{+b+}c'')) = Some (tb, None)"
      and r1: "renderNode (markMoves ix) (StructuralSourceNode OperationMove ''T1'' ''{+b+}c'') = []"
      and r2: "renderNode (markMoves ix) (StructuralTargetNode OperationMove ''T1'') = tb"
    by (elim exE conjE) (rule that; assumption)
  from pt nb b have tb: "tb = ''bc''" by simp
  have "\<exists>ix. firstPass (TransformToCleanView 8)
           [StructuralSourceNode OperationMove ''T1'' ''{+b+}c'', TextNode ''...'',
            StructuralTargetNode OperationMove ''T1''] emptyIndices = Some (Inr ix) \<and>
         renderNode (markMoves ix) (StructuralSourceNode OperationMove ''T1'' ''{+b+}c'') = [] \<and>
         renderNode (markMoves ix) (StructuralTargetNode OperationMove ''T1'') = ''bc''"
  proof (intro exI [of _ ix] conjI)
    show "firstPass (TransformToCleanView 8)
           [StructuralSourceNode OperationMove ''T1'' ''{+b+}c'', TextNode ''...'',
            StructuralTargetNode OperationMove ''T1''] emptyIndices = Some (Inr ix)"
      by (rule fp)
    show "renderNode (markMoves ix) (StructuralSourceNode OperationMove ''T1'' ''{+b+}c'') = []"
      by (rule r1)
    show "renderNode (markMoves ix) (StructuralTargetNode OperationMove ''T1'') = ''bc''"
      using r2 tb by (rule trans)
  qed
  with p t e1 e2 show ?thesis by (intro conjI)
qed

text \<open>
  C3, as stated, fails for a document that holds a conflict elsewhere: here the move
  source \<open>T1\<close> has exactly one move target, the tag \<open>U\<close> has two sources, and the
  call returns the error with the empty output; nothing is emitted at the target.
\<close>

theorem C3_conflict_counterexample:
  "fst (ParseEditMLToNodes ''{move~b~T1}{move:T1}{copy~x~U}{copy~y~U}'') =
     [StructuralSourceNode OperationMove ''T1'' ''b'', StructuralTargetNode OperationMove ''T1'',
      StructuralSourceNode OperationCopy ''U'' ''x'', StructuralSourceNode OperationCopy ''U'' ''y''] \<and>
   count_list (moveTargetTags
     [StructuralSourceNode OperationMove ''T1'' ''b'', StructuralTargetNode OperationMove ''T1'',
      StructuralSourceNode OperationCopy ''U'' ''x'', StructuralSourceNode OperationCopy ''U'' ''y''])
     ''T1'' = 1 \<and>
   enoughFuel 3
     [StructuralSourceNode OperationMove ''T1'' ''b'', StructuralTargetNode OperationMove ''T1'',
      StructuralSourceNode OperationCopy ''U'' ''x'', StructuralSourceNode OperationCopy ''U'' ''y''] \<and>
   TransformToCleanView 3
     [StructuralSourceNode OperationMove ''T1'' ''b'', StructuralTargetNode OperationMove ''T1'',
      StructuralSourceNode OperationCopy ''U'' ''x'', StructuralSourceNode OperationCopy ''U'' ''y''] =
     Some ([], Some (DuplicateSourceTag ''U''))"
  by code_simp

text \<open>
  C4, amended: in a document without a fatal structural conflict, a copy source whose
  tag has at least one copy target writes its block at its own place, and every copy
  target of the tag writes the same block: the Clean View of the block content (the
  content parsed and rendered by the same pipeline), or the
  \<open>ERROR_TRANSFORMING_CONTENT\<close> marker when the block content holds a fatal conflict of
  its own.
\<close>

theorem C4_copy_multiplicity:
  assumes src: "StructuralSourceNode OperationCopy tag blockContent \<in> set nodes"
    and tgt: "StructuralTargetNode OperationCopy tag \<in> set nodes"
    and noconflict: "distinct (sourceTags nodes)" "distinct (moveTargetTags nodes)"
    and fuel: "enoughFuel (Suc fuel) nodes"
  shows "\<exists>ix tb.
           firstPass (TransformToCleanView fuel) nodes emptyIndices = Some (Inr ix) \<and>
           preTransform (TransformToCleanView fuel) OperationCopy tag blockContent = Some tb \<and>
           (\<not> blockConflict blockContent \<longrightarrow>
              TransformToCleanView fuel (fst (ParseEditMLToNodes blockContent)) = Some (tb, None)) \<and>
           (blockConflict blockContent \<longrightarrow>
              tb = ''{'' @ OperationCopy @ ''~'' @ blockContent @
                   '' (ERROR_TRANSFORMING_CONTENT)~'' @ tag @ ''}'') \<and>
           TransformToCleanView (Suc fuel) nodes =
             Some (concat (map (renderNode (markMoves ix)) nodes), None) \<and>
           renderNode (markMoves ix) (StructuralSourceNode OperationCopy tag blockContent) = tb \<and>
           renderNode (markMoves ix) (StructuralTargetNode OperationCopy tag) = tb"
proof -
  from prescan_succeeds [OF fuel noconflict] obtain ix
    where fp: "firstPass (TransformToCleanView fuel) nodes emptyIndices = Some (Inr ix)"
      and out: "TransformToCleanView (Suc fuel) nodes =
                  Some (concat (map (renderNode (markMoves ix)) nodes), None)"
    by auto
  from prescan_marked [OF fp src noconflict(2)] obtain tb
    where tb: "preTransform (TransformToCleanView fuel) OperationCopy tag blockContent = Some tb"
      and md: "allSources (markMoves ix) tag =
                 Some \<lparr>srcNode = StructuralSourceNode OperationCopy tag blockContent,
                       transformedBlock = tb, isUsedAsMove = False\<rparr>"
    by auto
  note res = preTransform_result [OF tb]
  note cp = prescan_has_target [OF fp, where tag = tag and operation = OperationCopy]
  have b1: "\<not> blockConflict blockContent \<longrightarrow>
              TransformToCleanView fuel (fst (ParseEditMLToNodes blockContent)) = Some (tb, None)"
    using res by simp
  have b2: "blockConflict blockContent \<longrightarrow>
              tb = ''{'' @ OperationCopy @ ''~'' @ blockContent @
                   '' (ERROR_TRANSFORMING_CONTENT)~'' @ tag @ ''}''"
    using res by simp
  have r1: "renderNode (markMoves ix) (StructuralSourceNode OperationCopy tag blockContent) = tb"
    using md cp tgt by (simp add: renderNode_def)
  have r2: "renderNode (markMoves ix) (StructuralTargetNode OperationCopy tag) = tb"
    using md by (simp add: renderNode_def)
  from fp tb b1 b2 out r1 r2 show ?thesis
    by (intro exI [of _ ix] exI [of _ tb] conjI)
qed

theorem C4_copy_multiplicity_witness:
  "fst (ParseEditMLToNodes ''{copy~X{+y+}~T2}...{copy:T2}...{copy:T2}'') =
     [StructuralSourceNode OperationCopy ''T2'' ''X{+y+}'', TextNode ''...'',
      StructuralTargetNode OperationCopy ''T2'', TextNode ''...'',
      StructuralTargetNode OperationCopy ''T2''] \<and>
   TransformToCleanView 8
     [StructuralSourceNode OperationCopy ''T2'' ''X{+y+}'', TextNode ''...'',
      StructuralTargetNode OperationCopy ''T2'', TextNode ''...'',
      StructuralTargetNode OperationCopy ''T2''] = Some (''Xy...Xy...Xy'', None) \<and>
   (\<exists>ix. firstPass (TransformToCleanView 7)
           [StructuralSourceNode OperationCopy ''T2'' ''X{+y+}'', TextNode ''...'',
            StructuralTargetNode OperationCopy ''T2'', TextNode ''...'',
            StructuralTargetNode OperationCopy ''T2''] emptyIndices = Some (Inr ix) \<and>
         renderNode (markMoves ix) (StructuralSourceNode OperationCopy ''T2'' ''X{+y+}'') = ''Xy'' \<and>
         renderNode (markMoves ix) (StructuralTargetNode OperationCopy ''T2'') = ''Xy'') \<and>
   TransformToCleanView 3 (fst (ParseEditMLToNodes ''{copy~X~T2}...{copy:T2}...{copy:T2}'')) =
     Some (''X...X...X'', None) \<and>
   TransformToCleanView 3 (fst (ParseEditMLToNodes ''{copy~{move:A}{move:A}~T}|{copy:T}'')) =
     Some (''{copy~{move:A}{move:A} (ERROR_TRANSFORMING_CONTENT)~T}|{copy~{move:A}{move:A} (ERROR_TRANSFORMING_CONTENT)~T}'', None)"
proof -
  have p: "fst (ParseEditMLToNodes ''{copy~X{+y+}~T2}...{copy:T2}...{copy:T2}'') =
     [StructuralSourceNode OperationCopy ''T2'' ''X{+y+}'', TextNode ''...'',
      StructuralTargetNode OperationCopy ''T2'', TextNode ''...'',
      StructuralTargetNode OperationCopy ''T2'']"
    by code_simp
  have t: "TransformToCleanView 8
     [StructuralSourceNode OperationCopy ''T2'' ''X{+y+}'', TextNode ''...'',
      StructuralTargetNode OperationCopy ''T2'', TextNode ''...'',
      StructuralTargetNode OperationCopy ''T2''] = Some (''Xy...Xy...Xy'', None)"
    by code_simp
  have e1: "TransformToCleanView 3 (fst (ParseEditMLToNodes ''{copy~X~T2}...{copy:T2}...{copy:T2}'')) =
     Some (''X...X...X'', None)"
    by code_simp
  have e2: "TransformToCleanView 3 (fst (ParseEditMLToNodes ''{copy~{move:A}{move:A}~T}|{copy:T}'')) =
     Some (''{copy~{move:A}{move:A} (ERROR_TRANSFORMING_CONTENT)~T}|{copy~{move:A}{move:A} (ERROR_TRANSFORMING_CONTENT)~T}'', None)"
    by code_simp
  have nb: "\<not> blockConflict ''X{+y+}''" by code_simp
  have b: "TransformToCleanView 7 (fst (ParseEditMLToNodes ''X{+y+}'')) = Some (''Xy'', None)"
    by code_simp
  have f: "enoughFuel (Suc 7)
     [StructuralSourceNode OperationCopy ''T2'' ''X{+y+}'', TextNode ''...'',
      StructuralTargetNode OperationCopy ''T2'', TextNode ''...'',
      StructuralTargetNode OperationCopy ''T2'']"
    by (simp add: enoughFuel_def)
  have h1: "StructuralSourceNode OperationCopy ''T2'' ''X{+y+}'' \<in> set
     [StructuralSourceNode OperationCopy ''T2'' ''X{+y+}'', TextNode ''...'',
      StructuralTargetNode OperationCopy ''T2'', TextNode ''...'',
      StructuralTargetNode OperationCopy ''T2'']"
    by simp
  have h2: "StructuralTargetNode OperationCopy ''T2'' \<in> set
     [StructuralSourceNode OperationCopy ''T2'' ''X{+y+}'', TextNode ''...'',
      StructuralTargetNode OperationCopy ''T2'', TextNode ''...'',
      StructuralTargetNode OperationCopy ''T2'']"
    by simp
  have h3: "distinct (sourceTags
     [StructuralSourceNode OperationCopy ''T2'' ''X{+y+}'', TextNode ''...'',
      StructuralTargetNode OperationCopy ''T2'', TextNode ''...'',
      StructuralTargetNode OperationCopy ''T2''])"
    by simp
  have h4: "distinct (moveTargetTags
     [StructuralSourceNode OperationCopy ''T2'' ''X{+y+}'', TextNode ''...'',
      StructuralTargetNode OperationCopy ''T2'', TextNode ''...'',
      StructuralTargetNode OperationCopy ''T2''])"
    by simp
  from C4_copy_multiplicity [OF h1 h2 h3 h4 f] obtain ix tb
    where fp: "firstPass (TransformToCleanView 7)
           [StructuralSourceNode OperationCopy ''T2'' ''X{+y+}'', TextNode ''...'',
            StructuralTargetNode OperationCopy ''T2'', TextNode ''...'',
            StructuralTargetNode OperationCopy ''T2''] emptyIndices = Some (Inr ix)"
      and pt: "\<not> blockConflict ''X{+y+}'' \<longrightarrow>
                 TransformToCleanView 7 (fst (ParseEditMLToNodes ''X{+y+}'')) = Some (tb, None)"
      and r1: "renderNode (markMoves ix) (StructuralSourceNode OperationCopy ''T2'' ''X{+y+}'') = tb"
      and r2: "renderNode (markMoves ix) (StructuralTargetNode OperationCopy ''T2'') = tb"
    by (elim exE conjE) (rule that; assumption)
  from pt nb b have tb: "tb = ''Xy''" by simp
  have "\<exists>ix. firstPass (TransformToCleanView 7)
           [StructuralSourceNode OperationCopy ''T2'' ''X{+y+}'', TextNode ''...'',
            StructuralTargetNode OperationCopy ''T2'', TextNode ''...'',
            StructuralTargetNode OperationCopy ''T2''] emptyIndices = Some (Inr ix) \<and>
         renderNode (markMoves ix) (StructuralSourceNode OperationCopy ''T2'' ''X{+y+}'') = ''Xy'' \<and>
         renderNode (markMoves ix) (StructuralTargetNode OperationCopy ''T2'') = ''Xy''"
  proof (intro exI [of _ ix] conjI)
    show "firstPass (TransformToCleanView 7)
           [StructuralSourceNode OperationCopy ''T2'' ''X{+y+}'', TextNode ''...'',
            StructuralTargetNode OperationCopy ''T2'', TextNode ''...'',
            StructuralTargetNode OperationCopy ''T2''] emptyIndices = Some (Inr ix)"
      by (rule fp)
    show "renderNode (markMoves ix) (StructuralSourceNode OperationCopy ''T2'' ''X{+y+}'') = ''Xy''"
      using r1 tb by (rule trans)
    show "renderNode (markMoves ix) (StructuralTargetNode OperationCopy ''T2'') = ''Xy''"
      using r2 tb by (rule trans)
  qed
  with p t e1 e2 show ?thesis by (intro conjI)
qed

text \<open>
  C4, as stated, fails for a document that holds a conflict elsewhere: here the copy
  source \<open>T2\<close> has two copy targets, the tag \<open>Q\<close> has two move targets, and the call
  returns the error with the empty output; no copy is emitted.
\<close>

theorem C4_conflict_counterexample:
  "fst (ParseEditMLToNodes ''{copy~X~T2}{copy:T2}{copy:T2}{move:Q}{move:Q}'') =
     [StructuralSourceNode OperationCopy ''T2'' ''X'', StructuralTargetNode OperationCopy ''T2'',
      StructuralTargetNode OperationCopy ''T2'', StructuralTargetNode OperationMove ''Q'',
      StructuralTargetNode OperationMove ''Q''] \<and>
   enoughFuel 3
     [StructuralSourceNode OperationCopy ''T2'' ''X'', StructuralTargetNode OperationCopy ''T2'',
      StructuralTargetNode OperationCopy ''T2'', StructuralTargetNode OperationMove ''Q'',
      StructuralTargetNode OperationMove ''Q''] \<and>
   TransformToCleanView 3
     [StructuralSourceNode OperationCopy ''T2'' ''X'', StructuralTargetNode OperationCopy ''T2'',
      StructuralTargetNode OperationCopy ''T2'', StructuralTargetNode OperationMove ''Q'',
      StructuralTargetNode OperationMove ''Q''] =
     Some ([], Some (MultipleMoveTargets ''Q''))"
  by code_simp

section \<open>Plain text and the tests of the repository\<close>

lemma FindAll_no_brace:
  assumes "\<And>t. CHR ''{'' \<notin> set t \<Longrightarrow> matchAt t = None" and "CHR ''{'' \<notin> set s"
  shows "FindAll matchAt len 0 pos s = []"
proof (rule FindAll_none)
  fix i
  have "set (drop i s) \<subseteq> set s" by (rule set_drop_subset)
  with assms(2) have "CHR ''{'' \<notin> set (drop i s)" by blast
  then show "matchAt (drop i s) = None" by (rule assms(1))
qed

lemma matchInlineAt_no_brace: "CHR ''{'' \<notin> set t \<Longrightarrow> matchInlineAt opn cl t = None"
  by (auto simp: matchInlineAt_def split: list.splits)

lemma matchSourceAt_no_brace: "CHR ''{'' \<notin> set t \<Longrightarrow> matchSourceAt kws t = None"
  by (auto simp: matchSourceAt_def split: list.splits)

lemma matchTargetAt_no_brace: "CHR ''{'' \<notin> set t \<Longrightarrow> matchTargetAt kws t = None"
  by (auto simp: matchTargetAt_def split: list.splits)

lemma allMatches_no_brace: "CHR ''{'' \<notin> set input \<Longrightarrow> allMatches input = []"
  by (simp add: allMatches_def inlineMatches_def sourceMatches_def targetMatches_def
      FindAll_no_brace matchInlineAt_no_brace matchSourceAt_no_brace matchTargetAt_no_brace)

text \<open>
  Graceful degradation: a text without an opening brace matches no expression; the
  parser returns it as one Text node (no node for the empty text) and no error, and the
  Clean View of that is the text itself.
\<close>

theorem plain_text_is_one_text_node:
  assumes "CHR ''{'' \<notin> set input"
  shows "ParseEditMLToNodes input = (if input = [] then [] else [TextNode input], None) \<and>
         TransformCleanView 1 (fst (ParseEditMLToNodes input)) = Some (input, [])"
proof -
  have p: "ParseEditMLToNodes input = (if input = [] then [] else [TextNode input], None)"
    using allMatches_no_brace [OF assms]
    by (simp add: ParseEditMLToNodes_def buildNodes_def sortSlice_def Let_def)
  then show ?thesis
    by (simp add: TransformCleanView_def emptyIndices_def renderNode_def)
qed

theorem plain_text_is_one_text_node_witness:
  "ParseEditMLToNodes ''a } b'' = ([TextNode ''a } b''], None) \<and>
   TransformCleanView 1 (fst (ParseEditMLToNodes ''a } b'')) = Some (''a } b'', [])"
proof -
  have "CHR ''{'' \<notin> set ''a } b''" by simp
  from plain_text_is_one_text_node [OF this] show ?thesis by auto
qed

text \<open>
  The message of an error quotes the tag as \<open>%q\<close> does: an alphanumeric tag stands
  between double quotes as it is; a double quote, a backslash and control bytes are
  escaped.
\<close>

theorem Error_quotes_tag:
  "Error (DuplicateSourceTag ''T1'') =
     ''structural conflict: duplicate source tag '' @ [CHR 0x22] @ ''T1'' @ [CHR 0x22] \<and>
   Error (MultipleMoveTargets [CHR ''a'', CHR 0x22, bslash, CHR 0x0A, CHR 0x01, CHR 0x7F]) =
     ''structural conflict: multiple move targets for tag '' @
     [CHR 0x22, CHR ''a'', bslash, CHR 0x22, bslash, bslash, bslash, CHR ''n'',
      bslash, CHR ''x'', CHR ''0'', CHR ''1'', bslash, CHR ''x'', CHR ''7'', CHR ''f'', CHR 0x22]"
  by code_simp

text \<open>
  The tests of \<open>api_test.go\<close> and the examples of the specification, run on the model:
  \<open>TestParseSimpleAddition\<close>, \<open>TestParseTextAndAddition\<close>,
  \<open>TestTransformSimpleAddition\<close>, \<open>TestTransformTextAndDeletion\<close>,
  \<open>TestParseAndTransformIntegration\<close>, the basic transform and the unresolved target.
\<close>

theorem api_tests:
  "ParseEditMLToNodes ''{+added text+ws}'' =
     ([InlineEditNode EditTypeAddition ''added text'' ''ws''], None) \<and>
   ParseEditMLToNodes ''Hello {+World+}'' =
     ([TextNode ''Hello '', InlineEditNode EditTypeAddition ''World'' []], None) \<and>
   TransformCleanView 1 [InlineEditNode EditTypeAddition ''added text'' ''ws''] =
     Some (''added text'', []) \<and>
   TransformCleanView 1 [TextNode ''Hello '', InlineEditNode EditTypeDeletion ''World'' []] =
     Some (''Hello '', []) \<and>
   TransformCleanView 1
     (fst (ParseEditMLToNodes ''This is {+an addition+} and this is {-a deletion-}.'')) =
     Some (''This is an addition and this is .'', []) \<and>
   TransformCleanView 1 (fst (ParseEditMLToNodes ''Hello {+World+}! This is {-not seen-}.'')) =
     Some (''Hello World! This is .'', []) \<and>
   TransformCleanView 1 (fst (ParseEditMLToNodes ''{move:ZZZ}'')) = Some (''{move:ZZZ}'', [])"
  by code_simp

text \<open>
  The last part of \<open>testdata/multiline.md\<close> (a move whose block holds inline edits over
  several lines, and its target) with the output that
  \<open>TestParseAndTransformMultilineFile\<close> expects for it.
\<close>

theorem multiline_move_excerpt:
  "TransformCleanView 2 (fst (ParseEditMLToNodes
     (''{move~This block will be moved.'' @ [CHR 0x0A] @
      ''It contains {+added text within the block+ws}'' @ [CHR 0x0A] @
      ''and also some {-deleted text within the block-ws}.'' @ [CHR 0x0A] @
      ''This should all move together.'' @ [CHR 0x0A] @
      ''~moveML2}'' @ [CHR 0x0A] @ [CHR 0x0A] @
      ''The target for the mixed content move:'' @ [CHR 0x0A] @
      ''{move:moveML2}'' @ [CHR 0x0A] @ [CHR 0x0A] @
      ''End of multiline tests.''))) =
   Some ([CHR 0x0A] @ [CHR 0x0A] @
      ''The target for the mixed content move:'' @ [CHR 0x0A] @
      ''This block will be moved.'' @ [CHR 0x0A] @
      ''It contains added text within the block'' @ [CHR 0x0A] @
      ''and also some .'' @ [CHR 0x0A] @
      ''This should all move together.'' @ [CHR 0x0A] @ [CHR 0x0A] @ [CHR 0x0A] @
      ''End of multiline tests.'', [])"
  by code_simp

end
